theory Spec2Isabelle
  imports Main
begin

section \<open>Data model (src/features/GameBoard/types.ts)\<close>

text \<open>
  \<^verbatim>\<open>Player = 'red' | 'yellow'\<close>, \<^verbatim>\<open>Cell = Player | null\<close> (\<open>None\<close> is \<^verbatim>\<open>null\<close>),
  \<^verbatim>\<open>GameBoard = Cell[][]\<close> and the \<^verbatim>\<open>GameState\<close> object. Row and column numbers
  are JavaScript numbers; the engine only ever uses integral ones, so they are \<open>int\<close>.
\<close>

datatype Player = Red | Yellow

type_synonym Cell = "Player option"

type_synonym GameBoard = "Cell list list"

datatype GameResult = Win | Draw | Continue

record GameState =
  result :: GameResult
  gameBoard :: GameBoard
  currentPlayer :: Player
  winningDiscs :: "(int \<times> int) list option"

text \<open>
  Reading a property of \<^verbatim>\<open>undefined\<close> throws a TypeError; a loop that never leaves
  is the value \<open>None\<close> of the outer option. A computation of the engine therefore
  yields \<open>Some (Inr v)\<close> when it returns \<open>v\<close>, \<open>Some (Inl TypeError)\<close> when it throws.
\<close>

datatype error = TypeError

text \<open>
  \<^verbatim>\<open>board[r]\<close> followed by a property read: an index outside the array gives
  \<^verbatim>\<open>undefined\<close>, and reading \<^verbatim>\<open>undefined[c]\<close> throws.
\<close>

definition getRow :: "GameBoard \<Rightarrow> int \<Rightarrow> error + Cell list" where
  "getRow board r =
     (if 0 \<le> r \<and> r < int (length board) then Inr (board ! nat r) else Inl TypeError)"

text \<open>
  \<^verbatim>\<open>cells[c]\<close>: \<open>None\<close> is \<^verbatim>\<open>undefined\<close> (index outside the row), \<open>Some None\<close> is
  \<^verbatim>\<open>null\<close>, \<open>Some (Some p)\<close> a disc of player \<open>p\<close>.
\<close>

definition getCell :: "Cell list \<Rightarrow> int \<Rightarrow> Cell option" where
  "getCell cells c =
     (if 0 \<le> c \<and> c < int (length cells) then Some (cells ! nat c) else None)"

text \<open>
  Modelled from the spec: ROWS and COLUMNS, the constants of \<^verbatim>\<open>../constants\<close>, a module
  that is not among the sources (``ROWS rows (6) by COLUMNS columns (7)'').
\<close>

definition ROWS :: nat where
  "ROWS = 6"

definition COLUMNS :: nat where
  "COLUMNS = 7"

section \<open>The engine (src/features/GameBoard/utils.ts)\<close>

subsection \<open>countCells\<close>

text \<open>
  The \<^verbatim>\<open>while\<close> loop of \<^verbatim>\<open>countCells\<close>, with the loop variables \<^verbatim>\<open>discs\<close>, \<^verbatim>\<open>r\<close>
  and \<^verbatim>\<open>c\<close> as arguments. With \<^verbatim>\<open>rowDir = colDir = 0\<close> it never leaves a matching
  cell, hence the partial function.
\<close>

partial_function (option) countCells_loop ::
  "GameState \<Rightarrow> int \<Rightarrow> int \<Rightarrow> (int \<times> int) list \<Rightarrow> int \<Rightarrow> int
     \<Rightarrow> (error + (int \<times> int) list) option" where
  "countCells_loop state rowDir colDir discs r c =
     (if r \<ge> 0 \<and> r < 6 \<and> c \<ge> 0 \<and> c < 7 then
        (case getRow (gameBoard state) r of
           Inl e \<Rightarrow> Some (Inl e)
         | Inr cells \<Rightarrow>
             if getCell cells c = Some (Some (currentPlayer state))
             then countCells_loop state rowDir colDir (discs @ [(r, c)]) (r + rowDir) (c + colDir)
             else Some (Inr discs))
      else Some (Inr discs))"

declare countCells_loop.simps [code]

definition countCells ::
  "GameState \<Rightarrow> int \<Rightarrow> int \<Rightarrow> int \<Rightarrow> int \<Rightarrow> (error + (int \<times> int) list) option" where
  "countCells state row col rowDir colDir =
     countCells_loop state rowDir colDir [] (row + rowDir) (col + colDir)"

subsection \<open>checkDirection and isWinningMove\<close>

definition checkDirection ::
  "GameState \<Rightarrow> int \<Rightarrow> int \<Rightarrow> int \<Rightarrow> int \<Rightarrow> (error + (int \<times> int) list option) option" where
  "checkDirection state row col rowDir colDir =
     (case countCells state row col rowDir colDir of
        None \<Rightarrow> None
      | Some (Inl e) \<Rightarrow> Some (Inl e)
      | Some (Inr fwd) \<Rightarrow>
          (case countCells state row col (- rowDir) (- colDir) of
             None \<Rightarrow> None
           | Some (Inl e) \<Rightarrow> Some (Inl e)
           | Some (Inr bwd) \<Rightarrow>
               (let winningDiscs = [(row, col)] @ fwd @ bwd
                in Some (Inr (if length winningDiscs \<ge> 4 then Some winningDiscs else None)))))"

text \<open>
  JavaScript's \<^verbatim>\<open>a || b\<close> on values that are an array (truthy, also when empty) or
  \<^verbatim>\<open>null\<close>: \<^verbatim>\<open>b\<close> is evaluated only when \<^verbatim>\<open>a\<close> returned \<^verbatim>\<open>null\<close>.
\<close>

definition orElse ::
  "(error + 'a option) option \<Rightarrow> (error + 'a option) option \<Rightarrow> (error + 'a option) option" where
  "orElse a b =
     (case a of
        None \<Rightarrow> None
      | Some (Inl e) \<Rightarrow> Some (Inl e)
      | Some (Inr (Some v)) \<Rightarrow> Some (Inr (Some v))
      | Some (Inr None) \<Rightarrow> b)"

definition isWinningMove ::
  "GameState \<Rightarrow> int \<Rightarrow> int \<Rightarrow> (error + (int \<times> int) list option) option" where
  "isWinningMove state row col =
     orElse (orElse (orElse
       (checkDirection state row col 0 1)
       (checkDirection state row col 1 0))
       (checkDirection state row col 1 1))
       (checkDirection state row col 1 (- 1))"

subsection \<open>isWinningCell\<close>

definition isWinningCell :: "GameState \<Rightarrow> int \<Rightarrow> int \<Rightarrow> bool" where
  "isWinningCell state row col =
     (winningDiscs state \<noteq> None \<and>
      list_ex (\<lambda>(r, c). r = row \<and> c = col) (the (winningDiscs state)))"

subsection \<open>isBoardFull and getEmptyRow\<close>

definition isBoardFull :: "GameBoard \<Rightarrow> error + bool" where
  "isBoardFull board =
     (case getRow board 0 of
        Inl e \<Rightarrow> Inl e
      | Inr cells \<Rightarrow> Inr (list_all (\<lambda>cell. cell \<noteq> None) cells))"

text \<open>The \<^verbatim>\<open>for (let row = 5; row >= 0; row--)\<close> loop, entered at \<open>row\<close>.\<close>

function getEmptyRow_loop :: "GameBoard \<Rightarrow> int \<Rightarrow> int \<Rightarrow> error + int" where
  "getEmptyRow_loop board col row =
     (if row \<ge> 0 then
        (case getRow board row of
           Inl e \<Rightarrow> Inl e
         | Inr cells \<Rightarrow>
             if getCell cells col = Some None then Inr row
             else getEmptyRow_loop board col (row - 1))
      else Inr (- 1))"
  by pat_completeness auto
termination
  by (relation "measure (\<lambda>(board, col, row). nat (row + 1))") auto

declare getEmptyRow_loop.simps [simp del]

definition getEmptyRow :: "GameBoard \<Rightarrow> int \<Rightarrow> error + int" where
  "getEmptyRow board col = getEmptyRow_loop board col 5"

subsection \<open>placeDisc\<close>

text \<open>
  \<^verbatim>\<open>nextBoard[row][col] = player\<close>. The assignment is only reached with a \<open>row\<close> that
  \<^verbatim>\<open>getEmptyRow\<close> returned and that is not \<open>-1\<close>, where \<^verbatim>\<open>nextBoard[row][col]\<close> was read
  as \<^verbatim>\<open>null\<close>: the index is inside the arrays (lemma \<open>getEmptyRow_in_range\<close>), so the
  arrays are never extended.
\<close>

definition setCell :: "GameBoard \<Rightarrow> int \<Rightarrow> int \<Rightarrow> Cell \<Rightarrow> GameBoard" where
  "setCell board row col v = board[nat row := (board ! nat row)[nat col := v]]"

definition placeDisc :: "GameState \<Rightarrow> int \<Rightarrow> (error + GameState) option" where
  "placeDisc state col =
     (if result state \<noteq> Continue then Some (Inr state)
      else
        (let nextBoard = map (\<lambda>row. row) (gameBoard state) in
         (case getEmptyRow nextBoard col of
            Inl e \<Rightarrow> Some (Inl e)
          | Inr row \<Rightarrow>
              (if row = - 1 then Some (Inr state)
               else
                 (let nextBoard = setCell nextBoard row col (Some (currentPlayer state)) in
                  (case isWinningMove (state\<lparr>gameBoard := nextBoard\<rparr>) row col of
                     None \<Rightarrow> None
                   | Some (Inl e) \<Rightarrow> Some (Inl e)
                   | Some (Inr (Some discs)) \<Rightarrow>
                       Some (Inr \<lparr>result = Win, gameBoard = nextBoard,
                                  currentPlayer = currentPlayer state,
                                  winningDiscs = Some discs\<rparr>)
                   | Some (Inr None) \<Rightarrow>
                       (case isBoardFull nextBoard of
                          Inl e \<Rightarrow> Some (Inl e)
                        | Inr True \<Rightarrow>
                            Some (Inr \<lparr>result = Draw, gameBoard = nextBoard,
                                       currentPlayer = currentPlayer state,
                                       winningDiscs = None\<rparr>)
                        | Inr False \<Rightarrow>
                            (let nextPlayer = (if currentPlayer state = Red then Yellow else Red)
                             in Some (Inr \<lparr>result = Continue, gameBoard = nextBoard,
                                           currentPlayer = nextPlayer,
                                           winningDiscs = None\<rparr>)))))))))"

section \<open>The callers (the hook useGameBoard and the test suite)\<close>

text \<open>
  \<^verbatim>\<open>getInitialState\<close> of the test suite, the same value as \<^verbatim>\<open>initialState\<close> of
  \<^verbatim>\<open>useGameBoard\<close>: \<^verbatim>\<open>Array(ROWS).fill(null).map(() => Array(COLUMNS).fill(null))\<close>.
\<close>

definition getInitialState :: GameState where
  "getInitialState =
     \<lparr>result = Continue,
      gameBoard = map (\<lambda>_. replicate COLUMNS None) (replicate ROWS (None :: Cell)),
      currentPlayer = Red,
      winningDiscs = None\<rparr>"

text \<open>
  \<^verbatim>\<open>for (const col of cols) { nextState = placeDisc(nextState, col) }\<close> of the tests;
  an exception or a call that does not return ends the run.
\<close>

fun playAll :: "GameState \<Rightarrow> int list \<Rightarrow> (error + GameState) option" where
  "playAll state [] = Some (Inr state)"
| "playAll state (col # cols) =
     (case placeDisc state col of
        None \<Rightarrow> None
      | Some (Inl e) \<Rightarrow> Some (Inl e)
      | Some (Inr nextState) \<Rightarrow> playAll nextState cols)"

text \<open>
  The states the hook can hold: the initial state, and \<^verbatim>\<open>placeDisc(state, col)\<close> for a
  state it holds (\<^verbatim>\<open>onPressCell\<close>); \<^verbatim>\<open>resetGame\<close> goes back to the initial state.
\<close>

inductive reachable :: "GameState \<Rightarrow> bool" where
  reachable_init: "reachable getInitialState"
| reachable_step: "reachable state \<Longrightarrow> placeDisc state col = Some (Inr state') \<Longrightarrow> reachable state'"

section \<open>Notions of the specification\<close>

text \<open>
  The Board of the data model is ``a fixed-size rectangular grid of Cells, ROWS rows (6)
  by COLUMNS columns (7)''. The type \<^verbatim>\<open>Cell[][]\<close> has other values too; on a board of
  fewer than six rows \<^verbatim>\<open>getEmptyRow\<close> throws (lemma \<open>placeDisc_short\<close>).
\<close>

definition wf_board :: "GameBoard \<Rightarrow> bool" where
  "wf_board board \<longleftrightarrow>
     length board = ROWS \<and> list_all (\<lambda>cells. length cells = COLUMNS) board"

text \<open>
  Coordinates that are on the board, the cell they name, and ``the cell holds a disc of
  player \<open>p\<close>''.
\<close>

definition onBoard :: "int \<Rightarrow> int \<Rightarrow> bool" where
  "onBoard r c \<longleftrightarrow> 0 \<le> r \<and> r < int ROWS \<and> 0 \<le> c \<and> c < int COLUMNS"

definition cellAt :: "GameBoard \<Rightarrow> int \<Rightarrow> int \<Rightarrow> Cell" where
  "cellAt board r c = board ! nat r ! nat c"

definition hasDisc :: "GameBoard \<Rightarrow> Player \<Rightarrow> int \<Rightarrow> int \<Rightarrow> bool" where
  "hasDisc board p r c \<longleftrightarrow> onBoard r c \<and> cellAt board r c = Some p"

text \<open>
  The contiguous run of the discs of \<open>p\<close> through the cell (row, col) along the axis
  (dr, dc): the cell at offset \<open>k\<close> belongs to it when every cell from the placed one up
  to offset \<open>k\<close>, both included, is on the board and holds a disc of \<open>p\<close>. Negative offsets
  extend in the opposite direction.
\<close>

definition inRun :: "GameBoard \<Rightarrow> Player \<Rightarrow> int \<Rightarrow> int \<Rightarrow> int \<Rightarrow> int \<Rightarrow> int \<Rightarrow> bool" where
  "inRun board p row col dr dc k \<longleftrightarrow>
     (\<forall>j \<in> {min 0 k..max 0 k}. hasDisc board p (row + j * dr) (col + j * dc))"

definition runCells :: "GameBoard \<Rightarrow> Player \<Rightarrow> int \<Rightarrow> int \<Rightarrow> int \<Rightarrow> int \<Rightarrow> (int \<times> int) set" where
  "runCells board p row col dr dc =
     (\<lambda>k. (row + k * dr, col + k * dc)) ` {k. inRun board p row col dr dc k}"

text \<open>
  The four axes in the order of the spec: horizontal, vertical, diagonal down-right,
  diagonal up-right. An axis wins when its run has at least four cells; the first winning
  axis is the first one of the list that wins.
\<close>

definition axes :: "(int \<times> int) list" where
  "axes = [(0, 1), (1, 0), (1, 1), (1, - 1)]"

definition winningAxis :: "GameBoard \<Rightarrow> Player \<Rightarrow> int \<Rightarrow> int \<Rightarrow> int \<times> int \<Rightarrow> bool" where
  "winningAxis board p row col axis \<longleftrightarrow>
     4 \<le> card (runCells board p row col (fst axis) (snd axis))"

definition firstWinningAxis :: "GameBoard \<Rightarrow> Player \<Rightarrow> int \<Rightarrow> int \<Rightarrow> (int \<times> int) option" where
  "firstWinningAxis board p row col = find (winningAxis board p row col) axes"

text \<open>
  A move into \<open>col\<close> is accepted when the column exists and has an empty cell. The
  lowest empty row is the empty cell of the column with no empty cell at a higher row
  index. The top row is full when none of its cells is empty.
\<close>

definition columnOpen :: "GameBoard \<Rightarrow> int \<Rightarrow> bool" where
  "columnOpen board col \<longleftrightarrow>
     0 \<le> col \<and> col < int COLUMNS \<and> (\<exists>r \<in> {0..<int ROWS}. cellAt board r col = None)"

definition isLowestEmpty :: "GameBoard \<Rightarrow> int \<Rightarrow> int \<Rightarrow> bool" where
  "isLowestEmpty board col row \<longleftrightarrow>
     onBoard row col \<and> cellAt board row col = None
     \<and> (\<forall>r \<in> {row + 1..<int ROWS}. cellAt board r col \<noteq> None)"

definition topRowFull :: "GameBoard \<Rightarrow> bool" where
  "topRowFull board \<longleftrightarrow> (\<forall>c \<in> {0..<int COLUMNS}. cellAt board 0 c \<noteq> None)"

text \<open>
  ``The other Player''.
\<close>

definition otherPlayer :: "Player \<Rightarrow> Player" where
  "otherPlayer p = (case p of Red \<Rightarrow> Yellow | Yellow \<Rightarrow> Red)"

text \<open>
  The number of discs in a column; a column whose discs are stacked from the bottom (no
  empty cell at a higher row index than a disc); a board all of whose columns are.
\<close>

definition discCount :: "GameBoard \<Rightarrow> int \<Rightarrow> nat" where
  "discCount board col = length (filter (\<lambda>r. cellAt board r col \<noteq> None) [0..int ROWS - 1])"

definition columnStacked :: "GameBoard \<Rightarrow> int \<Rightarrow> bool" where
  "columnStacked board col \<longleftrightarrow>
     (\<forall>r \<in> {0..<int ROWS}. \<forall>r' \<in> {r..<int ROWS}.
        cellAt board r col \<noteq> None \<longrightarrow> cellAt board r' col \<noteq> None)"

definition gravityConsistent :: "GameBoard \<Rightarrow> bool" where
  "gravityConsistent board \<longleftrightarrow>
     (\<forall>c \<in> {0..<int COLUMNS}. \<forall>r \<in> {0..<int ROWS}. \<forall>r' \<in> {r<..<int ROWS}.
        cellAt board r c \<noteq> None \<longrightarrow> cellAt board r' c \<noteq> None)"

section \<open>States of the test suite and further examples\<close>

text \<open>The state of the test ``should detect a horizontal win'' before its last move: the columns 0, 0, 1, 1, 2, 2 have been played and red is to move.\<close>

definition horizontalSetup :: GameState where
  "horizontalSetup =
     \<lparr>result = Continue,
      gameBoard =
       [[None, None, None, None, None, None, None],
        [None, None, None, None, None, None, None],
        [None, None, None, None, None, None, None],
        [None, None, None, None, None, None, None],
        [Some Yellow, Some Yellow, Some Yellow, None, None, None, None],
        [Some Red, Some Red, Some Red, None, None, None, None]],
      currentPlayer = Red,
      winningDiscs = None\<rparr>"

text \<open>The state of the test ``should detect a draw when the board is full'' before its last move: 41 discs are on the board and yellow is to move into column 6.\<close>

definition drawSetup :: GameState where
  "drawSetup =
     \<lparr>result = Continue,
      gameBoard =
       [[Some Yellow, Some Yellow, Some Yellow, Some Red, Some Yellow, Some Yellow, None],
        [Some Red, Some Red, Some Red, Some Yellow, Some Red, Some Red, Some Red],
        [Some Yellow, Some Yellow, Some Yellow, Some Red, Some Yellow, Some Yellow, Some Yellow],
        [Some Red, Some Red, Some Red, Some Yellow, Some Red, Some Red, Some Red],
        [Some Yellow, Some Yellow, Some Yellow, Some Red, Some Yellow, Some Yellow, Some Yellow],
        [Some Red, Some Red, Some Red, Some Yellow, Some Red, Some Red, Some Red]],
      currentPlayer = Yellow,
      winningDiscs = None\<rparr>"

text \<open>A board with a single empty cell, (0, 3), where red completes the top row with a horizontal run of four.\<close>

definition fillingWinSetup :: GameState where
  "fillingWinSetup =
     \<lparr>result = Continue,
      gameBoard =
       [[Some Red, Some Red, Some Red, None, Some Yellow, Some Yellow, Some Yellow],
        [Some Yellow, Some Red, Some Yellow, Some Yellow, Some Red, Some Yellow, Some Red],
        [Some Yellow, Some Yellow, Some Red, Some Red, Some Yellow, Some Red, Some Yellow],
        [Some Red, Some Red, Some Yellow, Some Yellow, Some Red, Some Yellow, Some Red],
        [Some Yellow, Some Yellow, Some Red, Some Red, Some Yellow, Some Red, Some Yellow],
        [Some Red, Some Red, Some Yellow, Some Yellow, Some Red, Some Yellow, Some Red]],
      currentPlayer = Red,
      winningDiscs = None\<rparr>"

text \<open>A board where a red disc in column 3 lands on (2, 3) and completes a horizontal and a vertical run of four at once.\<close>

definition doubleWinSetup :: GameState where
  "doubleWinSetup =
     \<lparr>result = Continue,
      gameBoard =
       [[None, None, None, None, None, None, None],
        [None, None, None, None, None, None, None],
        [Some Red, Some Red, Some Red, None, None, None, None],
        [Some Yellow, Some Yellow, Some Yellow, Some Red, None, None, None],
        [Some Yellow, Some Yellow, Some Yellow, Some Red, None, None, None],
        [Some Yellow, Some Yellow, Some Yellow, Some Red, None, None, None]],
      currentPlayer = Red,
      winningDiscs = None\<rparr>"

text \<open>A well-typed state that no game reaches: the only disc of column 0 is in the top row.\<close>

definition floatingDisc :: GameState where
  "floatingDisc =
     \<lparr>result = Continue,
      gameBoard =
       [[Some Yellow, None, None, None, None, None, None],
        [None, None, None, None, None, None, None],
        [None, None, None, None, None, None, None],
        [None, None, None, None, None, None, None],
        [None, None, None, None, None, None, None],
        [None, None, None, None, None, None, None]],
      currentPlayer = Red,
      winningDiscs = None\<rparr>"

text \<open>
  The state that the test ``should detect a horizontal win'' ends in.
\<close>

definition horizontalWin :: GameState where
  "horizontalWin =
     \<lparr>result = Win,
      gameBoard =
       [[None, None, None, None, None, None, None],
        [None, None, None, None, None, None, None],
        [None, None, None, None, None, None, None],
        [None, None, None, None, None, None, None],
        [Some Yellow, Some Yellow, Some Yellow, None, None, None, None],
        [Some Red, Some Red, Some Red, Some Red, None, None, None]],
      currentPlayer = Red,
      winningDiscs = Some [(5, 3), (5, 2), (5, 1), (5, 0)]\<rparr>"

section \<open>Reading a well-formed board\<close>

lemma wf_board_read:
  assumes "wf_board board" "onBoard r c"
  shows "getRow board r = Inr (board ! nat r)"
    and "getCell (board ! nat r) c = Some (cellAt board r c)"
proof -
  from assms have r: "0 \<le> r" "nat r < length board"
    by (auto simp: wf_board_def onBoard_def ROWS_def)
  then show "getRow board r = Inr (board ! nat r)"
    by (simp add: getRow_def)
  from assms r have "length (board ! nat r) = COLUMNS"
    by (simp add: wf_board_def list_all_length)
  with assms show "getCell (board ! nat r) c = Some (cellAt board r c)"
    by (simp add: getCell_def cellAt_def onBoard_def)
qed

lemma wf_board_row:
  assumes "wf_board board" "0 \<le> r" "r < 6"
  shows "getRow board r = Inr (board ! nat r)" and "length (board ! nat r) = 7"
  using assms by (auto simp: wf_board_def getRow_def ROWS_def COLUMNS_def list_all_length)

lemma getCell_null:
  assumes "wf_board board" "0 \<le> r" "r < 6"
  shows "getCell (board ! nat r) col = Some None
           \<longleftrightarrow> 0 \<le> col \<and> col < 7 \<and> cellAt board r col = None"
  using wf_board_row(2) [OF assms] by (auto simp: getCell_def cellAt_def)

section \<open>The loop of countCells computes the run\<close>

text \<open>
  From a cell on, \<open>m\<close> cells in the direction hold a disc of the current player and the
  next one does not: the loop returns exactly these \<open>m\<close> cells, in order. In a direction
  other than (0, 0) such an \<open>m\<close> exists, because the eighth cell of a walk is off the board.
\<close>

lemma countCells_loop_run:
  assumes wf: "wf_board (gameBoard state)"
    and run: "\<forall>j<m. hasDisc (gameBoard state) (currentPlayer state) (r + int j * dr) (c + int j * dc)"
    and stop: "\<not> hasDisc (gameBoard state) (currentPlayer state) (r + int m * dr) (c + int m * dc)"
  shows "countCells_loop state dr dc discs r c
           = Some (Inr (discs @ map (\<lambda>j. (r + int j * dr, c + int j * dc)) [0..<m]))"
  using run stop
proof (induction m arbitrary: r c discs)
  case 0
  show ?case
  proof (cases "onBoard r c")
    case True
    with 0 have "cellAt (gameBoard state) r c \<noteq> Some (currentPlayer state)"
      by (simp add: hasDisc_def)
    with True wf show ?thesis
      by (subst countCells_loop.simps) (simp add: wf_board_read)
  next
    case False
    then show ?thesis
      by (subst countCells_loop.simps) (auto simp: onBoard_def ROWS_def COLUMNS_def)
  qed
next
  case (Suc m)
  from Suc.prems(1) have here: "hasDisc (gameBoard state) (currentPlayer state) r c"
    by (metis mult_zero_left add.right_neutral of_nat_0 zero_less_Suc)
  have step: "\<forall>j<m. hasDisc (gameBoard state) (currentPlayer state)
                  (r + dr + int j * dr) (c + dc + int j * dc)"
  proof (intro allI impI)
    fix j assume "j < m"
    then have "Suc j < Suc m" by simp
    with Suc.prems(1) have "hasDisc (gameBoard state) (currentPlayer state)
        (r + int (Suc j) * dr) (c + int (Suc j) * dc)" by blast
    then show "hasDisc (gameBoard state) (currentPlayer state)
        (r + dr + int j * dr) (c + dc + int j * dc)"
      by (simp add: algebra_simps)
  qed
  from Suc.prems(2) have stop': "\<not> hasDisc (gameBoard state) (currentPlayer state)
      (r + dr + int m * dr) (c + dc + int m * dc)"
    by (simp add: algebra_simps)
  have shift: "map (\<lambda>j. (r + int j * dr, c + int j * dc)) [0..<Suc m]
        = (r, c) # map (\<lambda>j. (r + dr + int j * dr, c + dc + int j * dc)) [0..<m]"
    by (simp add: upt_conv_Cons map_Suc_upt [symmetric] algebra_simps del: upt_Suc)
  from here have ob: "onBoard r c" and cell: "cellAt (gameBoard state) r c = Some (currentPlayer state)"
    by (simp_all add: hasDisc_def)
  from ob have rng: "r \<ge> 0 \<and> r < 6 \<and> c \<ge> 0 \<and> c < 7"
    by (simp add: onBoard_def ROWS_def COLUMNS_def)
  have "countCells_loop state dr dc discs r c
          = countCells_loop state dr dc (discs @ [(r, c)]) (r + dr) (c + dc)"
    by (subst countCells_loop.simps) (simp add: rng wf_board_read [OF wf ob] cell)
  also have "\<dots> = Some (Inr ((discs @ [(r, c)])
        @ map (\<lambda>j. (r + dr + int j * dr, c + dc + int j * dc)) [0..<m]))"
    by (rule Suc.IH [OF step stop'])
  finally show ?case
    by (simp only: shift) simp
qed

lemma run_stops:
  assumes "dr \<noteq> 0 \<or> dc \<noteq> 0"
  shows "\<exists>m. (\<forall>j<m. hasDisc b p (r + int j * dr) (c + int j * dc))
             \<and> \<not> hasDisc b p (r + int m * dr) (c + int m * dc)"
proof -
  let ?P = "\<lambda>j. \<not> hasDisc b p (r + int j * dr) (c + int j * dc)"
  have "?P 0 \<or> ?P 7"
  proof (rule ccontr)
    assume "\<not> (?P 0 \<or> ?P 7)"
    then have "onBoard r c" "onBoard (r + 7 * dr) (c + 7 * dc)"
      by (simp_all add: hasDisc_def)
    with assms show False
      by (auto simp: onBoard_def ROWS_def COLUMNS_def)
  qed
  then have ex: "\<exists>j. ?P j" by blast
  define m where "m = (LEAST j. ?P j)"
  have "?P m" unfolding m_def using ex by (rule LeastI_ex)
  moreover have "\<forall>j<m. \<not> ?P j" unfolding m_def using not_less_Least by blast
  ultimately show ?thesis by blast
qed

text \<open>
  The offsets of a run form an interval around 0, bounded by the two walks.
\<close>

lemma inRun_forward:
  assumes here: "hasDisc b p row col"
    and run: "\<forall>j<m. hasDisc b p (row + dr + int j * dr) (col + dc + int j * dc)"
    and stop: "\<not> hasDisc b p (row + dr + int m * dr) (col + dc + int m * dc)"
    and k: "0 \<le> k"
  shows "inRun b p row col dr dc k \<longleftrightarrow> k \<le> int m"
proof
  assume ir: "inRun b p row col dr dc k"
  show "k \<le> int m"
  proof (rule ccontr)
    assume "\<not> k \<le> int m"
    then have "int m + 1 \<in> {min 0 k..max 0 k}" by auto
    with ir have "hasDisc b p (row + (int m + 1) * dr) (col + (int m + 1) * dc)"
      unfolding inRun_def by blast
    with stop show False by (simp add: algebra_simps)
  qed
next
  assume le: "k \<le> int m"
  show "inRun b p row col dr dc k"
    unfolding inRun_def
  proof
    fix j assume "j \<in> {min 0 k..max 0 k}"
    with k have j: "0 \<le> j" "j \<le> k" by auto
    show "hasDisc b p (row + j * dr) (col + j * dc)"
    proof (cases "j = 0")
      case True
      with here show ?thesis by simp
    next
      case False
      with j le have "nat (j - 1) < m" by auto
      with run have "hasDisc b p (row + dr + int (nat (j - 1)) * dr) (col + dc + int (nat (j - 1)) * dc)"
        by blast
      moreover from False j have "int (nat (j - 1)) = j - 1" by simp
      ultimately show ?thesis by (simp add: algebra_simps)
    qed
  qed
qed

lemma inRun_flip: "inRun b p row col dr dc k \<longleftrightarrow> inRun b p row col (- dr) (- dc) (- k)"
proof -
  have "(\<forall>j \<in> {min 0 k..max 0 k}. hasDisc b p (row + j * dr) (col + j * dc))
      \<longleftrightarrow> (\<forall>j \<in> {min 0 (- k)..max 0 (- k)}. hasDisc b p (row + j * (- dr)) (col + j * (- dc)))"
    (is "?L \<longleftrightarrow> ?R")
  proof
    assume l: ?L
    show ?R
    proof
      fix j assume "j \<in> {min 0 (- k)..max 0 (- k)}"
      then have "- j \<in> {min 0 k..max 0 k}" by auto
      with l have "hasDisc b p (row + (- j) * dr) (col + (- j) * dc)" by blast
      then show "hasDisc b p (row + j * (- dr)) (col + j * (- dc))" by simp
    qed
  next
    assume r: ?R
    show ?L
    proof
      fix j assume "j \<in> {min 0 k..max 0 k}"
      then have "- j \<in> {min 0 (- k)..max 0 (- k)}" by auto
      with r have "hasDisc b p (row + (- j) * (- dr)) (col + (- j) * (- dc))" by blast
      then show "hasDisc b p (row + j * dr) (col + j * dc)" by simp
    qed
  qed
  then show ?thesis by (simp add: inRun_def)
qed

lemma inRun_interval:
  assumes here: "hasDisc b p row col"
    and run: "\<forall>j<m. hasDisc b p (row + dr + int j * dr) (col + dc + int j * dc)"
    and stop: "\<not> hasDisc b p (row + dr + int m * dr) (col + dc + int m * dc)"
    and run': "\<forall>j<m'. hasDisc b p (row + - dr + int j * - dr) (col + - dc + int j * - dc)"
    and stop': "\<not> hasDisc b p (row + - dr + int m' * - dr) (col + - dc + int m' * - dc)"
  shows "{k. inRun b p row col dr dc k} = {- int m'..int m}"
proof -
  have "inRun b p row col dr dc k \<longleftrightarrow> - int m' \<le> k \<and> k \<le> int m" for k
  proof (cases "0 \<le> k")
    case True
    have "inRun b p row col dr dc k \<longleftrightarrow> k \<le> int m"
      by (rule inRun_forward [OF here run stop True])
    with True show ?thesis by linarith
  next
    case False
    then have nk: "0 \<le> - k" by simp
    have "inRun b p row col dr dc k \<longleftrightarrow> inRun b p row col (- dr) (- dc) (- k)"
      by (rule inRun_flip)
    also have "\<dots> \<longleftrightarrow> - k \<le> int m'"
      by (rule inRun_forward [OF here run' stop' nk])
    finally show ?thesis using False by linarith
  qed
  then show ?thesis by (simp add: set_eq_iff)
qed

lemma run_image:
  fixes row col dr dc :: int
  defines "f \<equiv> \<lambda>k. (row + k * dr, col + k * dc)"
  shows "set ([(row, col)]
            @ map (\<lambda>j. (row + dr + int j * dr, col + dc + int j * dc)) [0..<m]
            @ map (\<lambda>j. (row + - dr + int j * - dr, col + - dc + int j * - dc)) [0..<m'])
         = f ` {- int m'..int m}" (is "set ?xs = _")
proof -
  have a: "(\<lambda>j. (row + dr + int j * dr, col + dc + int j * dc)) = (\<lambda>j. f (int j + 1))"
    by (simp add: f_def algebra_simps)
  have b: "(\<lambda>j. (row + - dr + int j * - dr, col + - dc + int j * - dc)) = (\<lambda>j. f (- int j - 1))"
    by (simp add: f_def algebra_simps)
  have "{- int m'..int m} = {0} \<union> (\<lambda>j. int j + 1) ` {0..<m} \<union> (\<lambda>j. - int j - 1) ` {0..<m'}"
    (is "?I = ?J")
  proof
    show "?J \<subseteq> ?I" by auto
    show "?I \<subseteq> ?J"
    proof
      fix k assume k: "k \<in> ?I"
      consider "k = 0" | "0 < k" | "k < 0" by linarith
      then show "k \<in> ?J"
      proof cases
        case 1 then show ?thesis by simp
      next
        case 2
        with k have "nat (k - 1) \<in> {0..<m}" "k = int (nat (k - 1)) + 1" by auto
        then show ?thesis by blast
      next
        case 3
        with k have "nat (- k - 1) \<in> {0..<m'}" "k = - int (nat (- k - 1)) - 1" by auto
        then show ?thesis by blast
      qed
    qed
  qed
  then have "f ` {- int m'..int m}
      = {f 0} \<union> (\<lambda>j. f (int j + 1)) ` {0..<m} \<union> (\<lambda>j. f (- int j - 1)) ` {0..<m'}"
    by (simp add: image_Un image_image)
  moreover have "f 0 = (row, col)" by (simp add: f_def)
  ultimately show ?thesis
    unfolding a b by simp
qed

lemma run_card:
  fixes row col dr dc :: int
  assumes "dr \<noteq> 0 \<or> dc \<noteq> 0"
  shows "card ((\<lambda>k. (row + k * dr, col + k * dc)) ` {- int m'..int m}) = Suc (m + m')"
proof -
  have "inj_on (\<lambda>k. (row + k * dr, col + k * dc)) {- int m'..int m}"
  proof (rule inj_onI)
    fix x y assume "(row + x * dr, col + x * dc) = (row + y * dr, col + y * dc)"
    then have "x * dr = y * dr" "x * dc = y * dc" by simp_all
    with assms show "x = y" by auto
  qed
  then have "card ((\<lambda>k. (row + k * dr, col + k * dc)) ` {- int m'..int m}) = card {- int m'..int m}"
    by (rule card_image)
  then show ?thesis by simp
qed

lemma runCells_meet:
  assumes "axis \<in> set axes" "other \<in> set axes" "other \<noteq> axis"
  shows "runCells board p row col (fst axis) (snd axis)
           \<inter> runCells board p row col (fst other) (snd other) \<subseteq> {(row, col)}"
  using assms unfolding runCells_def axes_def by auto

section \<open>checkDirection and isWinningMove\<close>

lemma checkDirection_run:
  assumes wf: "wf_board (gameBoard state)"
    and dir: "dr \<noteq> 0 \<or> dc \<noteq> 0"
    and here: "hasDisc (gameBoard state) (currentPlayer state) row col"
  shows "\<exists>discs. set discs = runCells (gameBoard state) (currentPlayer state) row col dr dc
           \<and> length discs = card (runCells (gameBoard state) (currentPlayer state) row col dr dc)
           \<and> checkDirection state row col dr dc
               = Some (Inr (if 4 \<le> length discs then Some discs else None))"
proof -
  let ?b = "gameBoard state" and ?p = "currentPlayer state"
  from run_stops [OF dir, of ?b ?p "row + dr" "col + dc"]
  obtain m where run: "\<forall>j<m. hasDisc ?b ?p (row + dr + int j * dr) (col + dc + int j * dc)"
    and stop: "\<not> hasDisc ?b ?p (row + dr + int m * dr) (col + dc + int m * dc)"
    by blast
  from dir have dir': "- dr \<noteq> 0 \<or> - dc \<noteq> 0" by simp
  from run_stops [OF dir', of ?b ?p "row + - dr" "col + - dc"]
  obtain m' where run': "\<forall>j<m'. hasDisc ?b ?p (row + - dr + int j * - dr) (col + - dc + int j * - dc)"
    and stop': "\<not> hasDisc ?b ?p (row + - dr + int m' * - dr) (col + - dc + int m' * - dc)"
    by blast
  let ?fwd = "map (\<lambda>j. (row + dr + int j * dr, col + dc + int j * dc)) [0..<m]"
  let ?bwd = "map (\<lambda>j. (row + - dr + int j * - dr, col + - dc + int j * - dc)) [0..<m']"
  let ?discs = "[(row, col)] @ ?fwd @ ?bwd"
  have fwd: "countCells state row col dr dc = Some (Inr ?fwd)"
    unfolding countCells_def using countCells_loop_run [OF wf run stop, of "[]"] by simp
  have bwd: "countCells state row col (- dr) (- dc) = Some (Inr ?bwd)"
    unfolding countCells_def using countCells_loop_run [OF wf run' stop', of "[]"] by simp
  have cells: "runCells ?b ?p row col dr dc = (\<lambda>k. (row + k * dr, col + k * dc)) ` {- int m'..int m}"
    unfolding runCells_def inRun_interval [OF here run stop run' stop'] ..
  have 1: "set ?discs = runCells ?b ?p row col dr dc"
    unfolding cells by (rule run_image)
  have 2: "length ?discs = card (runCells ?b ?p row col dr dc)"
    unfolding cells run_card [OF dir] by simp
  have 3: "checkDirection state row col dr dc
         = Some (Inr (if 4 \<le> length ?discs then Some ?discs else None))"
    unfolding checkDirection_def fwd bwd by (simp add: Let_def)
  from 1 2 3 show ?thesis by blast
qed

lemma winningAxis_code:
  assumes "wf_board board" "hasDisc board p row col" "dr \<noteq> 0 \<or> dc \<noteq> 0"
  shows "winningAxis board p row col (dr, dc)
           \<longleftrightarrow> checkDirection \<lparr>result = res, gameBoard = board, currentPlayer = p,
                                winningDiscs = wd\<rparr> row col dr dc \<noteq> Some (Inr None)"
proof -
  let ?st = "\<lparr>result = res, gameBoard = board, currentPlayer = p, winningDiscs = wd\<rparr>"
  from assms have wf: "wf_board (gameBoard ?st)"
    and here: "hasDisc (gameBoard ?st) (currentPlayer ?st) row col" by simp_all
  from checkDirection_run [OF wf assms(3) here]
  obtain discs where "length discs = card (runCells board p row col dr dc)"
    "checkDirection ?st row col dr dc = Some (Inr (if 4 \<le> length discs then Some discs else None))"
    by auto
  then show ?thesis by (simp add: winningAxis_def)
qed

lemma isWinningMove_run:
  assumes wf: "wf_board (gameBoard state)"
    and here: "hasDisc (gameBoard state) (currentPlayer state) row col"
  shows "\<exists>w. isWinningMove state row col = Some (Inr w)
           \<and> (case firstWinningAxis (gameBoard state) (currentPlayer state) row col of
                 None \<Rightarrow> w = None
               | Some axis \<Rightarrow> (\<exists>discs. w = Some discs \<and> distinct discs
                   \<and> set discs = runCells (gameBoard state) (currentPlayer state) row col
                                    (fst axis) (snd axis)))"
proof -
  let ?R = "runCells (gameBoard state) (currentPlayer state) row col"
  have each: "\<exists>discs. set discs = ?R dr dc \<and> distinct discs
      \<and> checkDirection state row col dr dc
           = Some (Inr (if 4 \<le> card (?R dr dc) then Some discs else None))"
    if "dr \<noteq> 0 \<or> dc \<noteq> 0" for dr dc
  proof -
    from checkDirection_run [OF wf that here]
    obtain discs where d: "set discs = ?R dr dc" "length discs = card (?R dr dc)"
      "checkDirection state row col dr dc = Some (Inr (if 4 \<le> length discs then Some discs else None))"
      by blast
    from d(1,2) have "distinct discs" by (simp add: card_distinct)
    with d show ?thesis by auto
  qed
  from each [of 0 1] obtain d1 where d1: "set d1 = ?R 0 1" "distinct d1"
    "checkDirection state row col 0 1 = Some (Inr (if 4 \<le> card (?R 0 1) then Some d1 else None))"
    by auto
  from each [of 1 0] obtain d2 where d2: "set d2 = ?R 1 0" "distinct d2"
    "checkDirection state row col 1 0 = Some (Inr (if 4 \<le> card (?R 1 0) then Some d2 else None))"
    by auto
  from each [of 1 1] obtain d3 where d3: "set d3 = ?R 1 1" "distinct d3"
    "checkDirection state row col 1 1 = Some (Inr (if 4 \<le> card (?R 1 1) then Some d3 else None))"
    by auto
  from each [of 1 "- 1"] obtain d4 where d4: "set d4 = ?R 1 (- 1)" "distinct d4"
    "checkDirection state row col 1 (- 1) = Some (Inr (if 4 \<le> card (?R 1 (- 1)) then Some d4 else None))"
    by auto
  show ?thesis
    unfolding isWinningMove_def d1(3) d2(3) d3(3) d4(3) firstWinningAxis_def axes_def
      winningAxis_def orElse_def
    using d1(1,2) d2(1,2) d3(1,2) d4(1,2) by simp
qed

lemma firstWinningAxis_None:
  "firstWinningAxis board p row col = None
     \<longleftrightarrow> \<not> (\<exists>axis \<in> set axes. winningAxis board p row col axis)"
  by (auto simp: firstWinningAxis_def find_None_iff)

lemma firstWinningAxis_Some:
  assumes "firstWinningAxis board p row col = Some axis"
  shows "axis \<in> set axes" and "winningAxis board p row col axis"
  using assms by (auto simp: firstWinningAxis_def find_Some_iff)

section \<open>getEmptyRow\<close>

text \<open>
  A row that \<^verbatim>\<open>getEmptyRow\<close> returns, other than \<open>-1\<close>, names a cell inside the arrays,
  whatever the shape of the board.
\<close>

lemma getEmptyRow_loop_in_range:
  assumes "getEmptyRow_loop board col start = Inr row" "row \<noteq> - 1"
  shows "0 \<le> row \<and> row \<le> start \<and> row < int (length board)
         \<and> getCell (board ! nat row) col = Some None"
  using assms
proof (induction board col start rule: getEmptyRow_loop.induct)
  case (1 board col start)
  show ?case
  proof (cases "0 \<le> start")
    case False
    with "1.prems" show ?thesis
      by (subst (asm) getEmptyRow_loop.simps) simp
  next
    case True
    show ?thesis
    proof (cases "getRow board start")
      case (Inl e)
      with True "1.prems"(1) show ?thesis
        by (subst (asm) getEmptyRow_loop.simps) simp
    next
      case (Inr cells)
      then have row: "start < int (length board)" "cells = board ! nat start"
        by (auto simp: getRow_def split: if_splits)
      show ?thesis
      proof (cases "getCell cells col = Some None")
        case here: True
        with True Inr "1.prems"(1) have "row = start"
          by (subst (asm) getEmptyRow_loop.simps) simp
        with True row here show ?thesis by simp
      next
        case False
        with True Inr "1.prems"(1) have "getEmptyRow_loop board col (start - 1) = Inr row"
          by (subst (asm) getEmptyRow_loop.simps) simp
        from "1.IH" [OF True Inr False this "1.prems"(2)] show ?thesis by simp
      qed
    qed
  qed
qed

lemma getEmptyRow_in_range:
  assumes "getEmptyRow board col = Inr row" "row \<noteq> - 1"
  shows "0 \<le> row \<and> nat row < length board
         \<and> 0 \<le> col \<and> nat col < length (board ! nat row)
         \<and> board ! nat row ! nat col = None"
proof -
  from getEmptyRow_loop_in_range [OF assms [unfolded getEmptyRow_def]]
  have "0 \<le> row" "row < int (length board)" "getCell (board ! nat row) col = Some None"
    by simp_all
  then show ?thesis
    by (auto simp: getCell_def split: if_splits)
qed

lemma getEmptyRow_loop_found:
  assumes "wf_board board" "0 \<le> row" "row \<le> start" "start < 6"
    and "getCell (board ! nat row) col = Some None"
    and "\<forall>r \<in> {row + 1..start}. getCell (board ! nat r) col \<noteq> Some None"
  shows "getEmptyRow_loop board col start = Inr row"
  using assms
proof (induction board col start rule: getEmptyRow_loop.induct)
  case (1 board col start)
  from "1.prems" have rng: "0 \<le> start" "start < 6" by simp_all
  show ?case
  proof (cases "getCell (board ! nat start) col = Some None")
    case True
    have "row = start"
    proof (rule ccontr)
      assume "row \<noteq> start"
      with "1.prems"(3) have "start \<in> {row + 1..start}" by simp
      with "1.prems"(6) True show False by blast
    qed
    with True rng "1.prems"(1) show ?thesis
      by (subst getEmptyRow_loop.simps) (simp add: wf_board_row)
  next
    case False
    with "1.prems" have ne: "row \<noteq> start" by auto
    with "1.prems" have le: "row \<le> start - 1" by simp
    have rest: "\<forall>r \<in> {row + 1..start - 1}. getCell (board ! nat r) col \<noteq> Some None"
      using "1.prems"(6) by simp
    have "getEmptyRow_loop board col start = getEmptyRow_loop board col (start - 1)"
      using False rng "1.prems"(1) by (subst getEmptyRow_loop.simps) (simp add: wf_board_row)
    also have "\<dots> = Inr row"
      using "1.IH" [OF _ _ False "1.prems"(1,2) le _ "1.prems"(5) rest] rng "1.prems"(1)
      by (simp add: wf_board_row)
    finally show ?thesis .
  qed
qed

lemma getEmptyRow_loop_none:
  assumes "wf_board board" "start < 6"
    and "\<forall>r \<in> {0..start}. getCell (board ! nat r) col \<noteq> Some None"
  shows "getEmptyRow_loop board col start = Inr (- 1)"
  using assms
proof (induction board col start rule: getEmptyRow_loop.induct)
  case (1 board col start)
  show ?case
  proof (cases "0 \<le> start")
    case True
    with "1.prems" have here: "getCell (board ! nat start) col \<noteq> Some None" by simp
    have rest: "\<forall>r \<in> {0..start - 1}. getCell (board ! nat r) col \<noteq> Some None"
      using "1.prems"(3) by simp
    have "getEmptyRow_loop board col start = getEmptyRow_loop board col (start - 1)"
      using here True "1.prems"(1,2) by (subst getEmptyRow_loop.simps) (simp add: wf_board_row)
    also have "\<dots> = Inr (- 1)"
      using "1.IH" [OF True _ here "1.prems"(1) _ rest] True "1.prems"(1,2)
      by (simp add: wf_board_row)
    finally show ?thesis .
  next
    case False
    then show ?thesis by (subst getEmptyRow_loop.simps) simp
  qed
qed

lemma getEmptyRow_short:
  assumes "length board < 6"
  shows "getEmptyRow board col = Inl TypeError"
  using assms unfolding getEmptyRow_def
  by (subst getEmptyRow_loop.simps) (simp add: getRow_def)

lemma getEmptyRow_found:
  assumes wf: "wf_board board" and low: "isLowestEmpty board col row"
  shows "getEmptyRow board col = Inr row"
proof -
  from low have rng: "0 \<le> row" "row < 6" "0 \<le> col" "col < 7"
    and e: "cellAt board row col = None"
    and below: "\<forall>r \<in> {row + 1..<6}. cellAt board r col \<noteq> None"
    by (simp_all add: isLowestEmpty_def onBoard_def ROWS_def COLUMNS_def)
  have 1: "getCell (board ! nat row) col = Some None"
    using getCell_null [OF wf rng(1,2)] rng e by simp
  have 2: "\<forall>r \<in> {row + 1..5}. getCell (board ! nat r) col \<noteq> Some None"
  proof
    fix r assume r: "r \<in> {row + 1..5}"
    with rng have "0 \<le> r" "r < 6" by auto
    from getCell_null [OF wf this] below r show "getCell (board ! nat r) col \<noteq> Some None"
      by auto
  qed
  from rng have "row \<le> 5" by simp
  from getEmptyRow_loop_found [OF wf rng(1) this _ 1 2] show ?thesis
    by (simp add: getEmptyRow_def)
qed

lemma getEmptyRow_full:
  assumes wf: "wf_board board" and full: "\<not> columnOpen board col"
  shows "getEmptyRow board col = Inr (- 1)"
proof -
  have "\<forall>r \<in> {0..5}. getCell (board ! nat r) col \<noteq> Some None"
  proof
    fix r :: int assume r: "r \<in> {0..5}"
    then have "0 \<le> r" "r < 6" by auto
    from getCell_null [OF wf this] full r show "getCell (board ! nat r) col \<noteq> Some None"
      by (auto simp: columnOpen_def ROWS_def COLUMNS_def)
  qed
  from getEmptyRow_loop_none [OF wf _ this] show ?thesis
    by (simp add: getEmptyRow_def)
qed

lemma columnOpen_lowest:
  assumes "columnOpen board col"
  shows "\<exists>row. isLowestEmpty board col row"
proof -
  define E where "E = {r \<in> {0..<int ROWS}. cellAt board r col = None}"
  have "E \<subseteq> {0..<int ROWS}" unfolding E_def by blast
  then have fin: "finite E" by (rule finite_subset) simp
  from assms have ne: "E \<noteq> {}"
    unfolding E_def columnOpen_def by blast
  obtain M where M: "M \<in> E" and top: "\<forall>r \<in> E. r \<le> M"
    using Max_in [OF fin ne] Max_ge [OF fin] by blast
  from M have m: "0 \<le> M" "M < int ROWS" "cellAt board M col = None"
    unfolding E_def by simp_all
  have below: "\<forall>r \<in> {M + 1..<int ROWS}. cellAt board r col \<noteq> None"
  proof (intro ballI notI)
    fix r assume r: "r \<in> {M + 1..<int ROWS}" and "cellAt board r col = None"
    with m have "r \<in> E" unfolding E_def by simp
    with top have "r \<le> M" by blast
    with r show False by simp
  qed
  from assms have "0 \<le> col" "col < int COLUMNS"
    by (simp_all add: columnOpen_def)
  with m below have "isLowestEmpty board col M"
    unfolding isLowestEmpty_def onBoard_def by blast
  then show ?thesis ..
qed

lemma isLowestEmpty_open: "isLowestEmpty board col row \<Longrightarrow> columnOpen board col"
  by (auto simp: isLowestEmpty_def columnOpen_def onBoard_def)

lemma isLowestEmpty_unique:
  assumes "isLowestEmpty board col row" "isLowestEmpty board col row'"
  shows "row = row'"
proof (rule ccontr)
  assume "row \<noteq> row'"
  then consider "row < row'" | "row' < row" by linarith
  then show False
  proof cases
    case 1
    with assms(2) have "row' \<in> {row + 1..<int ROWS}"
      by (simp add: isLowestEmpty_def onBoard_def)
    with assms show False unfolding isLowestEmpty_def by blast
  next
    case 2
    with assms(1) have "row \<in> {row' + 1..<int ROWS}"
      by (simp add: isLowestEmpty_def onBoard_def)
    with assms show False unfolding isLowestEmpty_def by blast
  qed
qed

section \<open>The board after a move\<close>

lemma setCell_wf:
  assumes "wf_board board"
  shows "wf_board (setCell board row col v)"
proof (cases "nat row < length board")
  case True
  with assms show ?thesis
    by (auto simp: wf_board_def setCell_def list_all_length nth_list_update)
next
  case False
  with assms show ?thesis
    by (simp add: setCell_def list_update_beyond)
qed

lemma cellAt_setCell_same:
  assumes "wf_board board" "onBoard row col"
  shows "cellAt (setCell board row col v) row col = v"
proof -
  from assms have "nat row < length board" "nat col < length (board ! nat row)"
    by (auto simp: wf_board_def onBoard_def list_all_length)
  then show ?thesis by (simp add: cellAt_def setCell_def)
qed

lemma cellAt_setCell_other:
  assumes "onBoard r c" "onBoard row col" "r \<noteq> row \<or> c \<noteq> col"
  shows "cellAt (setCell board row col v) r c = cellAt board r c"
proof (cases "r = row")
  case True
  with assms have "nat c \<noteq> nat col" by (auto simp: onBoard_def)
  with True show ?thesis
    by (cases "nat row < length board") (simp_all add: cellAt_def setCell_def list_update_beyond)
next
  case False
  with assms have "nat r \<noteq> nat row" by (auto simp: onBoard_def)
  then show ?thesis by (simp add: cellAt_def setCell_def)
qed

lemma isBoardFull_wf:
  assumes "wf_board board"
  shows "isBoardFull board = Inr (topRowFull board)"
proof -
  from assms have row: "getRow board 0 = Inr (board ! 0)" and len: "length (board ! 0) = 7"
    using wf_board_row [of board 0] by simp_all
  have "list_all (\<lambda>cell. cell \<noteq> None) (board ! 0) \<longleftrightarrow> topRowFull board"
  proof
    assume l: "list_all (\<lambda>cell. cell \<noteq> None) (board ! 0)"
    show "topRowFull board"
      unfolding topRowFull_def
    proof
      fix c assume "c \<in> {0..<int COLUMNS}"
      with len have "nat c < length (board ! 0)" by (auto simp: COLUMNS_def)
      with l show "cellAt board 0 c \<noteq> None" by (simp add: list_all_length cellAt_def)
    qed
  next
    assume t: "topRowFull board"
    show "list_all (\<lambda>cell. cell \<noteq> None) (board ! 0)"
      unfolding list_all_length
    proof (intro allI impI)
      fix n assume "n < length (board ! 0)"
      with len have "int n \<in> {0..<int COLUMNS}" by (simp add: COLUMNS_def)
      with t have "cellAt board 0 (int n) \<noteq> None" unfolding topRowFull_def by blast
      then show "board ! 0 ! n \<noteq> None" by (simp add: cellAt_def)
    qed
  qed
  with row show ?thesis by (simp add: isBoardFull_def)
qed

section \<open>placeDisc\<close>

lemma placeDisc_short:
  assumes "result state = Continue" "length (gameBoard state) < 6"
  shows "placeDisc state col = Some (Inl TypeError)"
  using assms by (simp add: placeDisc_def getEmptyRow_short)

lemma placeDisc_terminal:
  assumes "result state \<noteq> Continue"
  shows "placeDisc state col = Some (Inr state)"
  using assms by (simp add: placeDisc_def)

lemma placeDisc_rejected:
  assumes "wf_board (gameBoard state)" "\<not> columnOpen (gameBoard state) col"
  shows "placeDisc state col = Some (Inr state)"
  using getEmptyRow_full [OF assms] by (simp add: placeDisc_def)

lemma placeDisc_accepted:
  assumes wf: "wf_board (gameBoard state)"
    and cont: "result state = Continue"
    and low: "isLowestEmpty (gameBoard state) col row"
  defines "p \<equiv> currentPlayer state"
  defines "b' \<equiv> setCell (gameBoard state) row col (Some (currentPlayer state))"
  shows "\<exists>w. placeDisc state col
            = Some (Inr (case w of
                 Some discs \<Rightarrow>
                   \<lparr>result = Win, gameBoard = b', currentPlayer = p, winningDiscs = Some discs\<rparr>
               | None \<Rightarrow>
                   if topRowFull b'
                   then \<lparr>result = Draw, gameBoard = b', currentPlayer = p, winningDiscs = None\<rparr>
                   else \<lparr>result = Continue, gameBoard = b', currentPlayer = otherPlayer p,
                          winningDiscs = None\<rparr>))
          \<and> (case firstWinningAxis b' p row col of
                None \<Rightarrow> w = None
              | Some axis \<Rightarrow> (\<exists>discs. w = Some discs \<and> distinct discs
                  \<and> set discs = runCells b' p row col (fst axis) (snd axis)))"
proof -
  let ?st = "state\<lparr>gameBoard := b'\<rparr>"
  from low have ob: "onBoard row col" by (simp add: isLowestEmpty_def)
  then have row: "row \<noteq> - 1" by (simp add: onBoard_def)
  have wf': "wf_board (gameBoard ?st)"
    using wf by (simp add: b'_def setCell_wf)
  have here: "hasDisc (gameBoard ?st) (currentPlayer ?st) row col"
    using wf ob by (simp add: hasDisc_def b'_def cellAt_setCell_same)
  have "\<exists>w. isWinningMove ?st row col = Some (Inr w)
          \<and> (case firstWinningAxis b' p row col of
                None \<Rightarrow> w = None
              | Some axis \<Rightarrow> (\<exists>discs. w = Some discs \<and> distinct discs
                  \<and> set discs = runCells b' p row col (fst axis) (snd axis)))"
    using isWinningMove_run [OF wf' here] by (simp add: p_def cong: option.case_cong)
  then obtain w where w: "isWinningMove ?st row col = Some (Inr w)"
    and ax: "case firstWinningAxis b' p row col of
                None \<Rightarrow> w = None
              | Some axis \<Rightarrow> (\<exists>discs. w = Some discs \<and> distinct discs
                  \<and> set discs = runCells b' p row col (fst axis) (snd axis))"
    by blast
  have full: "isBoardFull b' = Inr (topRowFull b')"
    using wf' by (simp add: isBoardFull_wf)
  have er: "getEmptyRow (gameBoard state) col = Inr row"
    by (rule getEmptyRow_found [OF wf low])
  have "placeDisc state col
      = Some (Inr (case w of
                 Some discs \<Rightarrow>
                   \<lparr>result = Win, gameBoard = b', currentPlayer = p, winningDiscs = Some discs\<rparr>
               | None \<Rightarrow>
                   if topRowFull b'
                   then \<lparr>result = Draw, gameBoard = b', currentPlayer = p, winningDiscs = None\<rparr>
                   else \<lparr>result = Continue, gameBoard = b', currentPlayer = otherPlayer p,
                          winningDiscs = None\<rparr>))"
    using w [unfolded b'_def] full [unfolded b'_def] er row cont
    by (cases w; cases p)
      (simp_all add: placeDisc_def p_def b'_def otherPlayer_def)
  with ax show ?thesis by blast
qed

lemma placeDisc_outcome:
  assumes wf: "wf_board (gameBoard state)"
    and cont: "result state = Continue"
    and low: "isLowestEmpty (gameBoard state) col row"
  shows "\<exists>state'. placeDisc state col = Some (Inr state')
          \<and> gameBoard state' = setCell (gameBoard state) row col (Some (currentPlayer state))
          \<and> (case firstWinningAxis (gameBoard state') (currentPlayer state) row col of
                Some axis \<Rightarrow> result state' = Win \<and> currentPlayer state' = currentPlayer state
                  \<and> (\<exists>discs. winningDiscs state' = Some discs \<and> distinct discs
                        \<and> set discs = runCells (gameBoard state') (currentPlayer state) row col
                                         (fst axis) (snd axis))
              | None \<Rightarrow> winningDiscs state' = None
                  \<and> (if topRowFull (gameBoard state')
                      then result state' = Draw \<and> currentPlayer state' = currentPlayer state
                      else result state' = Continue
                         \<and> currentPlayer state' = otherPlayer (currentPlayer state)))"
proof -
  let ?p = "currentPlayer state"
  let ?b' = "setCell (gameBoard state) row col (Some ?p)"
  from placeDisc_accepted [OF wf cont low]
  obtain w where pd: "placeDisc state col
            = Some (Inr (case w of
                 Some discs \<Rightarrow>
                   \<lparr>result = Win, gameBoard = ?b', currentPlayer = ?p, winningDiscs = Some discs\<rparr>
               | None \<Rightarrow>
                   if topRowFull ?b'
                   then \<lparr>result = Draw, gameBoard = ?b', currentPlayer = ?p, winningDiscs = None\<rparr>
                   else \<lparr>result = Continue, gameBoard = ?b', currentPlayer = otherPlayer ?p,
                          winningDiscs = None\<rparr>))"
    and ax: "case firstWinningAxis ?b' ?p row col of
                None \<Rightarrow> w = None
              | Some axis \<Rightarrow> (\<exists>discs. w = Some discs \<and> distinct discs
                  \<and> set discs = runCells ?b' ?p row col (fst axis) (snd axis))"
    by blast
  show ?thesis
  proof (cases "firstWinningAxis ?b' ?p row col")
    case None
    with ax have "w = None" by simp
    with pd None show ?thesis by simp
  next
    case (Some axis)
    with ax obtain discs where "w = Some discs" "distinct discs"
      "set discs = runCells ?b' ?p row col (fst axis) (snd axis)" by auto
    with pd Some show ?thesis by simp
  qed
qed

lemma placeDisc_step:
  assumes wf: "wf_board (gameBoard state)"
    and pd: "placeDisc state col = Some (Inr state')"
  shows "state' = state
       \<or> (\<exists>row. isLowestEmpty (gameBoard state) col row
             \<and> gameBoard state' = setCell (gameBoard state) row col (Some (currentPlayer state)))"
proof (cases "result state = Continue \<and> columnOpen (gameBoard state) col")
  case True
  then obtain row where low: "isLowestEmpty (gameBoard state) col row"
    using columnOpen_lowest by blast
  from placeDisc_outcome [OF wf _ low] True pd
  have "gameBoard state' = setCell (gameBoard state) row col (Some (currentPlayer state))"
    by auto
  with low show ?thesis by blast
next
  case False
  then have "placeDisc state col = Some (Inr state)"
    using placeDisc_terminal [of state col] placeDisc_rejected [OF wf, of col] by blast
  with pd show ?thesis by simp
qed

lemma placeDisc_returns:
  assumes wf: "wf_board (gameBoard state)"
  shows "\<exists>state'. placeDisc state col = Some (Inr state') \<and> wf_board (gameBoard state')"
proof (cases "result state = Continue \<and> columnOpen (gameBoard state) col")
  case True
  then obtain row where low: "isLowestEmpty (gameBoard state) col row"
    using columnOpen_lowest by blast
  from placeDisc_outcome [OF wf _ low] True
  obtain state' where "placeDisc state col = Some (Inr state')"
    "gameBoard state' = setCell (gameBoard state) row col (Some (currentPlayer state))"
    by blast
  with wf show ?thesis by (simp add: setCell_wf)
next
  case False
  then have "placeDisc state col = Some (Inr state)"
    using placeDisc_terminal [of state col] placeDisc_rejected [OF wf, of col] by blast
  with wf show ?thesis by simp
qed

section \<open>Reachable states\<close>

lemma reachable_wf:
  assumes "reachable state"
  shows "wf_board (gameBoard state)"
  using assms
proof (induction rule: reachable.induct)
  case reachable_init
  show ?case
    by (simp add: getInitialState_def wf_board_def ROWS_def COLUMNS_def list_all_iff)
next
  case (reachable_step state col state')
  from placeDisc_returns [OF reachable_step.IH, of col] reachable_step.hyps(2)
  show ?case by simp
qed

lemma reachable_placeDisc_returns:
  assumes "reachable state"
  shows "\<exists>state'. placeDisc state col = Some (Inr state') \<and> reachable state'"
proof -
  from placeDisc_returns [OF reachable_wf [OF assms], of col]
  obtain state' where pd: "placeDisc state col = Some (Inr state')" by blast
  with assms have "reachable state'" by (rule reachable_step)
  with pd show ?thesis by blast
qed

lemma playAll_reachable:
  assumes "reachable state" "playAll state cols = Some (Inr state')"
  shows "reachable state'"
  using assms
proof (induction cols arbitrary: state)
  case Nil
  then show ?case by simp
next
  case (Cons col cols)
  from Cons.prems(2) obtain mid where n: "placeDisc state col = Some (Inr mid)"
    and r: "playAll mid cols = Some (Inr state')"
    by (auto split: option.splits sum.splits)
  from Cons.prems(1) n have "reachable mid" by (rule reachable_step)
  from Cons.IH [OF this r] show ?case .
qed

lemma horizontalSetup_played:
  "playAll getInitialState [0, 0, 1, 1, 2, 2] = Some (Inr horizontalSetup)"
  by code_simp

lemma horizontalWin_played:
  "playAll getInitialState [0, 0, 1, 1, 2, 2, 3] = Some (Inr horizontalWin)"
  by code_simp

lemma drawSetup_played:
  "playAll getInitialState
     [0, 0, 0, 0, 0, 0, 1, 1, 1, 1, 1, 1, 2, 2, 2, 2, 2, 2, 4, 4, 4, 4, 4, 4,
      5, 5, 5, 5, 5, 5, 6, 6, 6, 6, 6, 3, 3, 3, 3, 3, 3] = Some (Inr drawSetup)"
  by code_simp

lemma placeDisc_winningDiscs:
  assumes "winningDiscs state \<noteq> None \<longleftrightarrow> result state = Win"
    and "placeDisc state col = Some (Inr state')"
  shows "winningDiscs state' \<noteq> None \<longleftrightarrow> result state' = Win"
proof (cases "result state = Continue")
  case False
  with assms(2) have "state' = state" by (simp add: placeDisc_def)
  with assms(1) show ?thesis by simp
next
  case True
  show ?thesis
  proof (cases "getEmptyRow (gameBoard state) col")
    case (Inl e)
    with True assms(2) show ?thesis by (simp add: placeDisc_def)
  next
    case (Inr row)
    show ?thesis
    proof (cases "row = - 1")
      case True
      with \<open>result state = Continue\<close> Inr assms(2) have "state' = state"
        by (simp add: placeDisc_def)
      with assms(1) show ?thesis by simp
    next
      case False
      with \<open>result state = Continue\<close> Inr assms(2) show ?thesis
        by (auto simp: placeDisc_def Let_def split: option.splits sum.splits bool.splits)
    qed
  qed
qed

lemma gravity_setCell:
  assumes wf: "wf_board board"
    and g: "gravityConsistent board"
    and low: "isLowestEmpty board col row"
  shows "gravityConsistent (setCell board row col (Some p))"
  unfolding gravityConsistent_def
proof (intro ballI impI)
  fix c r r'
  assume c: "c \<in> {0..<int COLUMNS}" and r: "r \<in> {0..<int ROWS}" and r': "r' \<in> {r<..<int ROWS}"
    and occ: "cellAt (setCell board row col (Some p)) r c \<noteq> None"
  from low have ob: "onBoard row col" by (simp add: isLowestEmpty_def)
  from c r r' have obr: "onBoard r c" and obr': "onBoard r' c"
    by (simp_all add: onBoard_def)
  show "cellAt (setCell board row col (Some p)) r' c \<noteq> None"
  proof (cases "r' = row \<and> c = col")
    case True
    with wf ob show ?thesis by (simp add: cellAt_setCell_same)
  next
    case False
    then have same': "cellAt (setCell board row col (Some p)) r' c = cellAt board r' c"
      using obr' ob by (auto simp: cellAt_setCell_other)
    show ?thesis
    proof (cases "r = row \<and> c = col")
      case True
      with r' have "r' \<in> {row + 1..<int ROWS}" by simp
      with low True have "cellAt board r' c \<noteq> None"
        unfolding isLowestEmpty_def by blast
      with same' show ?thesis by simp
    next
      case False
      then have "cellAt (setCell board row col (Some p)) r c = cellAt board r c"
        using obr ob by (auto simp: cellAt_setCell_other)
      with occ have "cellAt board r c \<noteq> None" by simp
      with g c r r' have "cellAt board r' c \<noteq> None"
        unfolding gravityConsistent_def by blast
      with same' show ?thesis by simp
    qed
  qed
qed

section \<open>Stacked columns\<close>

lemma stacked_discCount:
  assumes low: "isLowestEmpty board col row"
    and st: "columnStacked board col"
  shows "row = int ROWS - 1 - int (discCount board col)"
proof -
  let ?P = "\<lambda>r. cellAt board r col \<noteq> None"
  from low have rng: "0 \<le> row" "row < int ROWS" and e: "\<not> ?P row"
    and below: "\<forall>r \<in> {row + 1..<int ROWS}. ?P r"
    by (simp_all add: isLowestEmpty_def onBoard_def)
  have above: "\<not> ?P r" if "r \<in> set [0..row]" for r
  proof
    assume "?P r"
    moreover from that rng have "r \<in> {0..<int ROWS}" "row \<in> {r..<int ROWS}" by simp_all
    ultimately have "?P row" using st unfolding columnStacked_def by blast
    with e show False ..
  qed
  from rng have "[0..int ROWS - 1] = [0..row] @ [row + 1..int ROWS - 1]"
    by (intro upto_split2) simp_all
  then have "filter ?P [0..int ROWS - 1]
      = filter ?P [0..row] @ filter ?P [row + 1..int ROWS - 1]" by simp
  also from above have "filter ?P [0..row] = []" by (simp add: filter_empty_conv)
  also from below have "filter ?P [row + 1..int ROWS - 1] = [row + 1..int ROWS - 1]"
    by (simp add: filter_id_conv)
  finally have "discCount board col = length [row + 1..int ROWS - 1]"
    by (simp add: discCount_def)
  with rng show ?thesis by simp
qed

lemma columnStacked_adjacent:
  "columnStacked board col
     \<longleftrightarrow> (\<forall>r \<in> {0..<int ROWS - 1}.
            cellAt board r col \<noteq> None \<longrightarrow> cellAt board (r + 1) col \<noteq> None)"
  (is "?L \<longleftrightarrow> ?R")
proof
  assume l: ?L
  show ?R
  proof (intro ballI impI)
    fix r assume "r \<in> {0..<int ROWS - 1}" and occ: "cellAt board r col \<noteq> None"
    then have "r \<in> {0..<int ROWS}" "r + 1 \<in> {r..<int ROWS}" by simp_all
    with l occ show "cellAt board (r + 1) col \<noteq> None"
      unfolding columnStacked_def by blast
  qed
next
  assume r: ?R
  have "cellAt board r' col \<noteq> None"
    if "r \<le> r'" "0 \<le> r" "r' < int ROWS" "cellAt board r col \<noteq> None" for r r'
    using that
  proof (induction r' rule: int_ge_induct)
    case base
    then show ?case by simp
  next
    case (step i)
    then have "cellAt board i col \<noteq> None" "i \<in> {0..<int ROWS - 1}" by simp_all
    with r show ?case by blast
  qed
  then show ?L unfolding columnStacked_def by auto
qed

lemma gravity_columnStacked:
  assumes g: "gravityConsistent board" and col: "0 \<le> col" "col < int COLUMNS"
  shows "columnStacked board col"
  unfolding columnStacked_def
proof (intro ballI impI)
  fix r r'
  assume r: "r \<in> {0..<int ROWS}" and r': "r' \<in> {r..<int ROWS}"
    and occ: "cellAt board r col \<noteq> None"
  show "cellAt board r' col \<noteq> None"
  proof (cases "r' = r")
    case True
    with occ show ?thesis by simp
  next
    case False
    with r' have "r' \<in> {r<..<int ROWS}" by simp
    moreover from col have "col \<in> {0..<int COLUMNS}" by simp
    ultimately show ?thesis
      using g r occ unfolding gravityConsistent_def by blast
  qed
qed

lemma placeDisc_gravity:
  assumes wf: "wf_board (gameBoard state)"
    and g: "gravityConsistent (gameBoard state)"
    and pd: "placeDisc state col = Some (Inr state')"
  shows "gravityConsistent (gameBoard state')"
  using placeDisc_step [OF wf pd]
proof
  assume "state' = state"
  with g show ?thesis by simp
next
  assume "\<exists>row. isLowestEmpty (gameBoard state) col row
           \<and> gameBoard state' = setCell (gameBoard state) row col (Some (currentPlayer state))"
  then obtain row where "isLowestEmpty (gameBoard state) col row"
    "gameBoard state' = setCell (gameBoard state) row col (Some (currentPlayer state))"
    by blast
  with gravity_setCell [OF wf g] show ?thesis by simp
qed

text \<open>
  In every reachable state every column is stacked from the bottom.
\<close>

lemma reachable_columnStacked:
  assumes r: "reachable state" and col: "0 \<le> col" "col < int COLUMNS"
  shows "columnStacked (gameBoard state) col"
proof -
  from r have "wf_board (gameBoard state) \<and> gravityConsistent (gameBoard state)"
  proof (induction rule: reachable.induct)
    case reachable_init
    have "cellAt (gameBoard getInitialState) r c = None"
      if "r \<in> {0..<int ROWS}" "c \<in> {0..<int COLUMNS}" for r c
    proof -
      from that have "nat r < 6" "nat c < 7" by (auto simp: ROWS_def COLUMNS_def)
      then show ?thesis
        by (simp add: getInitialState_def cellAt_def ROWS_def COLUMNS_def)
    qed
    then have "gravityConsistent (gameBoard getInitialState)"
      unfolding gravityConsistent_def by simp
    with reachable_wf [OF reachable.reachable_init] show ?case by simp
  next
    case (reachable_step state col state')
    then have wf: "wf_board (gameBoard state)" and g: "gravityConsistent (gameBoard state)"
      by simp_all
    from placeDisc_returns [OF wf, of col] reachable_step.hyps(2)
    have "wf_board (gameBoard state')" by simp
    with placeDisc_gravity [OF wf g reachable_step.hyps(2)] show ?case by simp
  qed
  then have "gravityConsistent (gameBoard state)" by simp
  from gravity_columnStacked [OF this col] show ?thesis .
qed

text \<open>
  The stacking matters: in \<open>floatingDisc\<close> column 0 holds one disc, in the top row; the
  disc of the move lands in row 5, the lowest empty row, and row 4 stays empty.
\<close>

lemma placeDisc_floatingDisc:
  "wf_board (gameBoard floatingDisc)
   \<and> result floatingDisc = Continue
   \<and> columnOpen (gameBoard floatingDisc) 0
   \<and> discCount (gameBoard floatingDisc) 0 = 1
   \<and> placeDisc floatingDisc 0
       = Some (Inr \<lparr>result = Continue,
                    gameBoard = setCell (gameBoard floatingDisc) 5 0 (Some Red),
                    currentPlayer = Yellow,
                    winningDiscs = None\<rparr>)
   \<and> cellAt (setCell (gameBoard floatingDisc) 5 0 (Some Red)) 5 0 = Some Red
   \<and> cellAt (setCell (gameBoard floatingDisc) 5 0 (Some Red)) 4 0 = None"
  by code_simp

section \<open>The claims\<close>

subsection \<open>Winning moves\<close>

text \<open>
  C1. For every state with a 6 by 7 board and result \<open>Continue\<close>, and every accepted
  move (the column has an empty cell): \<open>placeDisc\<close> returns a state whose board is the
  input board with the mover's disc in the lowest empty row of the column. If the run of
  the mover's discs through that cell along one of the four axes has at least four cells,
  the result is \<open>Win\<close>, \<open>currentPlayer\<close> is still the mover, and \<open>winningDiscs\<close> lists,
  without repetition, exactly the cells of the run of a winning axis (C6 says which one);
  if no axis has such a run, the result is not \<open>Win\<close>.
\<close>

theorem placeDisc_win:
  assumes "wf_board (gameBoard state)"
    and "result state = Continue"
    and "columnOpen (gameBoard state) col"
  shows "\<exists>row state'.
           isLowestEmpty (gameBoard state) col row
         \<and> placeDisc state col = Some (Inr state')
         \<and> gameBoard state' = setCell (gameBoard state) row col (Some (currentPlayer state))
         \<and> (if \<exists>axis \<in> set axes. winningAxis (gameBoard state') (currentPlayer state) row col axis
             then result state' = Win
                \<and> currentPlayer state' = currentPlayer state
                \<and> (\<exists>axis \<in> set axes. \<exists>discs.
                      winningAxis (gameBoard state') (currentPlayer state) row col axis
                    \<and> winningDiscs state' = Some discs
                    \<and> distinct discs
                    \<and> set discs = runCells (gameBoard state') (currentPlayer state) row col
                                     (fst axis) (snd axis))
             else result state' \<noteq> Win)"
proof -
  from columnOpen_lowest [OF assms(3)]
  obtain row where low: "isLowestEmpty (gameBoard state) col row" ..
  from placeDisc_outcome [OF assms(1,2) low]
  obtain state' where pd: "placeDisc state col = Some (Inr state')"
    and gb: "gameBoard state' = setCell (gameBoard state) row col (Some (currentPlayer state))"
    and out: "case firstWinningAxis (gameBoard state') (currentPlayer state) row col of
                Some axis \<Rightarrow> result state' = Win \<and> currentPlayer state' = currentPlayer state
                  \<and> (\<exists>discs. winningDiscs state' = Some discs \<and> distinct discs
                        \<and> set discs = runCells (gameBoard state') (currentPlayer state) row col
                                         (fst axis) (snd axis))
              | None \<Rightarrow> winningDiscs state' = None
                  \<and> (if topRowFull (gameBoard state')
                      then result state' = Draw \<and> currentPlayer state' = currentPlayer state
                      else result state' = Continue
                         \<and> currentPlayer state' = otherPlayer (currentPlayer state))"
    by blast
  let ?W = "winningAxis (gameBoard state') (currentPlayer state) row col"
  have "if \<exists>axis \<in> set axes. ?W axis
        then result state' = Win
           \<and> currentPlayer state' = currentPlayer state
           \<and> (\<exists>axis \<in> set axes. \<exists>discs. ?W axis
                 \<and> winningDiscs state' = Some discs \<and> distinct discs
                 \<and> set discs = runCells (gameBoard state') (currentPlayer state) row col
                                  (fst axis) (snd axis))
        else result state' \<noteq> Win"
  proof (cases "firstWinningAxis (gameBoard state') (currentPlayer state) row col")
    case None
    have no: "\<not> (\<exists>axis \<in> set axes. ?W axis)"
      using None firstWinningAxis_None [of "gameBoard state'" "currentPlayer state" row col]
      by blast
    from out None have "result state' \<noteq> Win"
      by (simp split: if_splits)
    with no show ?thesis by simp
  next
    case (Some axis)
    from firstWinningAxis_Some [OF Some] have ax: "axis \<in> set axes" "?W axis" .
    from out Some obtain discs where d: "result state' = Win"
      "currentPlayer state' = currentPlayer state"
      "winningDiscs state' = Some discs" "distinct discs"
      "set discs = runCells (gameBoard state') (currentPlayer state) row col (fst axis) (snd axis)"
      by auto
    from ax have some: "\<exists>axis \<in> set axes. ?W axis" by blast
    from ax d have "\<exists>axis \<in> set axes. \<exists>discs. ?W axis
                 \<and> winningDiscs state' = Some discs \<and> distinct discs
                 \<and> set discs = runCells (gameBoard state') (currentPlayer state) row col
                                  (fst axis) (snd axis)"
      by blast
    with some d(1,2) show ?thesis by simp
  qed
  with low pd gb show ?thesis by blast
qed

theorem placeDisc_win_witness:
  "wf_board (gameBoard horizontalSetup)
   \<and> result horizontalSetup = Continue
   \<and> columnOpen (gameBoard horizontalSetup) 3
   \<and> (\<exists>state'.
         placeDisc horizontalSetup 3 = Some (Inr state')
       \<and> gameBoard state' = setCell (gameBoard horizontalSetup) 5 3 (Some Red)
       \<and> winningAxis (gameBoard state') Red 5 3 (0, 1)
       \<and> result state' = Win
       \<and> currentPlayer state' = Red
       \<and> (\<exists>axis \<in> set axes. \<exists>discs.
             winningAxis (gameBoard state') Red 5 3 axis
           \<and> winningDiscs state' = Some discs
           \<and> distinct discs
           \<and> set discs = runCells (gameBoard state') Red 5 3 (fst axis) (snd axis)))"
proof -
  have h1: "wf_board (gameBoard horizontalSetup)" by code_simp
  have h2: "result horizontalSetup = Continue" by code_simp
  have h3: "columnOpen (gameBoard horizontalSetup) 3" by code_simp
  have p: "currentPlayer horizontalSetup = Red" by code_simp
  have low: "isLowestEmpty (gameBoard horizontalSetup) 3 5" by code_simp
  let ?b' = "setCell (gameBoard horizontalSetup) 5 3 (Some Red)"
  have "wf_board ?b'" "hasDisc ?b' Red 5 3" by code_simp+
  moreover have "checkDirection \<lparr>result = Continue, gameBoard = ?b', currentPlayer = Red,
      winningDiscs = None\<rparr> 5 3 0 1 \<noteq> Some (Inr None)" by code_simp
  ultimately have wa: "winningAxis ?b' Red 5 3 (0, 1)"
    by (simp only: winningAxis_code [of ?b' Red 5 3 0 1 Continue None] simp_thms)
  from placeDisc_win [OF h1 h2 h3] obtain row state' where
    r: "isLowestEmpty (gameBoard horizontalSetup) 3 row"
    and pd: "placeDisc horizontalSetup 3 = Some (Inr state')"
    and gb: "gameBoard state' = setCell (gameBoard horizontalSetup) row 3 (Some Red)"
    and out: "if \<exists>axis \<in> set axes. winningAxis (gameBoard state') Red row 3 axis
       then result state' = Win \<and> currentPlayer state' = Red
          \<and> (\<exists>axis \<in> set axes. \<exists>discs. winningAxis (gameBoard state') Red row 3 axis
               \<and> winningDiscs state' = Some discs \<and> distinct discs
               \<and> set discs = runCells (gameBoard state') Red row 3 (fst axis) (snd axis))
       else result state' \<noteq> Win"
    unfolding p by blast
  from isLowestEmpty_unique [OF r low] have row: "row = 5" .
  from wa have wa': "winningAxis (gameBoard state') Red 5 3 (0, 1)"
    unfolding gb row .
  then have "\<exists>axis \<in> set axes. winningAxis (gameBoard state') Red 5 3 axis"
    by (auto simp: axes_def)
  with out have "result state' = Win \<and> currentPlayer state' = Red
          \<and> (\<exists>axis \<in> set axes. \<exists>discs. winningAxis (gameBoard state') Red 5 3 axis
               \<and> winningDiscs state' = Some discs \<and> distinct discs
               \<and> set discs = runCells (gameBoard state') Red 5 3 (fst axis) (snd axis))"
    unfolding row by simp
  with h1 h2 h3 pd gb [unfolded row] wa' show ?thesis by blast
qed

text \<open>
  C6. When an accepted move completes winning runs on more than one axis, \<open>winningDiscs\<close>
  is the coordinate set of the first winning axis in the order horizontal (0, 1), vertical
  (1, 0), diagonal down-right (1, 1), diagonal up-right (1, -1); the run of any other
  winning axis is not contained in it, so it is not the union of the winning runs.
\<close>

theorem placeDisc_first_axis:
  assumes "wf_board (gameBoard state)"
    and "result state = Continue"
    and "columnOpen (gameBoard state) col"
  shows "\<exists>row state'.
           isLowestEmpty (gameBoard state) col row
         \<and> placeDisc state col = Some (Inr state')
         \<and> gameBoard state' = setCell (gameBoard state) row col (Some (currentPlayer state))
         \<and> (\<forall>axis. firstWinningAxis (gameBoard state') (currentPlayer state) row col = Some axis
               \<longrightarrow> (\<exists>discs. winningDiscs state' = Some discs
                     \<and> set discs = runCells (gameBoard state') (currentPlayer state) row col
                                      (fst axis) (snd axis)
                     \<and> (\<forall>other \<in> set axes.
                           other \<noteq> axis
                         \<and> winningAxis (gameBoard state') (currentPlayer state) row col other
                         \<longrightarrow> \<not> runCells (gameBoard state') (currentPlayer state) row col
                                   (fst other) (snd other) \<subseteq> set discs)))"
proof -
  from columnOpen_lowest [OF assms(3)]
  obtain row where low: "isLowestEmpty (gameBoard state) col row" ..
  from placeDisc_outcome [OF assms(1,2) low]
  obtain state' where pd: "placeDisc state col = Some (Inr state')"
    and gb: "gameBoard state' = setCell (gameBoard state) row col (Some (currentPlayer state))"
    and out: "case firstWinningAxis (gameBoard state') (currentPlayer state) row col of
                Some axis \<Rightarrow> result state' = Win \<and> currentPlayer state' = currentPlayer state
                  \<and> (\<exists>discs. winningDiscs state' = Some discs \<and> distinct discs
                        \<and> set discs = runCells (gameBoard state') (currentPlayer state) row col
                                         (fst axis) (snd axis))
              | None \<Rightarrow> winningDiscs state' = None
                  \<and> (if topRowFull (gameBoard state')
                      then result state' = Draw \<and> currentPlayer state' = currentPlayer state
                      else result state' = Continue
                         \<and> currentPlayer state' = otherPlayer (currentPlayer state))"
    by blast
  let ?R = "\<lambda>axis. runCells (gameBoard state') (currentPlayer state) row col (fst axis) (snd axis)"
  have "\<exists>discs. winningDiscs state' = Some discs \<and> set discs = ?R axis
        \<and> (\<forall>other \<in> set axes. other \<noteq> axis
              \<and> winningAxis (gameBoard state') (currentPlayer state) row col other
              \<longrightarrow> \<not> ?R other \<subseteq> set discs)"
    if first: "firstWinningAxis (gameBoard state') (currentPlayer state) row col = Some axis"
    for axis
  proof -
    from out first obtain discs where d: "winningDiscs state' = Some discs" "set discs = ?R axis"
      by auto
    from firstWinningAxis_Some(1) [OF first] have ax: "axis \<in> set axes" .
    have "\<not> ?R other \<subseteq> set discs"
      if o: "other \<in> set axes" "other \<noteq> axis"
        "winningAxis (gameBoard state') (currentPlayer state) row col other" for other
    proof
      assume "?R other \<subseteq> set discs"
      with d(2) have "?R other \<subseteq> ?R axis \<inter> ?R other" by blast
      also have "\<dots> \<subseteq> {(row, col)}" by (rule runCells_meet [OF ax o(1,2)])
      finally have "card (?R other) \<le> card {(row, col)}" by (intro card_mono) simp_all
      with o(3) show False by (simp add: winningAxis_def)
    qed
    with d show ?thesis by blast
  qed
  with low pd gb show ?thesis by blast
qed

theorem placeDisc_first_axis_witness:
  "wf_board (gameBoard doubleWinSetup)
   \<and> result doubleWinSetup = Continue
   \<and> columnOpen (gameBoard doubleWinSetup) 3
   \<and> (\<exists>state'.
         placeDisc doubleWinSetup 3 = Some (Inr state')
       \<and> gameBoard state' = setCell (gameBoard doubleWinSetup) 2 3 (Some Red)
       \<and> firstWinningAxis (gameBoard state') Red 2 3 = Some (0, 1)
       \<and> winningAxis (gameBoard state') Red 2 3 (1, 0)
       \<and> winningDiscs state' = Some [(2, 3), (2, 2), (2, 1), (2, 0)]
       \<and> set [(2, 3), (2, 2), (2, 1), (2, 0)] = runCells (gameBoard state') Red 2 3 0 1
       \<and> \<not> runCells (gameBoard state') Red 2 3 1 0 \<subseteq> set [(2, 3), (2, 2), (2, 1), (2, 0)])"
proof -
  have h1: "wf_board (gameBoard doubleWinSetup)" by code_simp
  have h2: "result doubleWinSetup = Continue" by code_simp
  have h3: "columnOpen (gameBoard doubleWinSetup) 3" by code_simp
  have p: "currentPlayer doubleWinSetup = Red" by code_simp
  have low: "isLowestEmpty (gameBoard doubleWinSetup) 3 2" by code_simp
  let ?b = "setCell (gameBoard doubleWinSetup) 2 3 (Some Red)"
  let ?st = "\<lparr>result = Continue, gameBoard = ?b, currentPlayer = Red, winningDiscs = None\<rparr>"
  have wfb: "wf_board ?b" and here: "hasDisc ?b Red 2 3" by code_simp+
  have "checkDirection ?st 2 3 0 1 \<noteq> Some (Inr None)" by code_simp
  with winningAxis_code [OF wfb here, of 0 1 Continue None]
  have w1: "winningAxis ?b Red 2 3 (0, 1)" by simp
  have "checkDirection ?st 2 3 1 0 \<noteq> Some (Inr None)" by code_simp
  with winningAxis_code [OF wfb here, of 1 0 Continue None]
  have w2: "winningAxis ?b Red 2 3 (1, 0)" by simp
  from w1 have first: "firstWinningAxis ?b Red 2 3 = Some (0, 1)"
    by (simp add: firstWinningAxis_def axes_def)
  have wd: "case placeDisc doubleWinSetup 3 of
              Some (Inr s) \<Rightarrow> winningDiscs s = Some [(2, 3), (2, 2), (2, 1), (2, 0)]
            | _ \<Rightarrow> False"
    by code_simp
  from placeDisc_first_axis [OF h1 h2 h3] obtain row state' where
    r: "isLowestEmpty (gameBoard doubleWinSetup) 3 row"
    and pd: "placeDisc doubleWinSetup 3 = Some (Inr state')"
    and gb: "gameBoard state' = setCell (gameBoard doubleWinSetup) row 3 (Some Red)"
    and out: "\<forall>axis. firstWinningAxis (gameBoard state') Red row 3 = Some axis
               \<longrightarrow> (\<exists>discs. winningDiscs state' = Some discs
                     \<and> set discs = runCells (gameBoard state') Red row 3 (fst axis) (snd axis)
                     \<and> (\<forall>other \<in> set axes.
                           other \<noteq> axis \<and> winningAxis (gameBoard state') Red row 3 other
                         \<longrightarrow> \<not> runCells (gameBoard state') Red row 3
                                   (fst other) (snd other) \<subseteq> set discs))"
    unfolding p by blast
  from isLowestEmpty_unique [OF r low] have row: "row = 2" .
  from gb row have gb2: "gameBoard state' = ?b" by simp
  from wd pd have discs: "winningDiscs state' = Some [(2, 3), (2, 2), (2, 1), (2, 0)]" by simp
  from out first gb2 row discs
  have run: "set [(2, 3), (2, 2), (2, 1), (2, 0)] = runCells ?b Red 2 3 (fst (0, 1)) (snd (0, 1))"
    and others: "\<forall>other \<in> set axes. other \<noteq> (0, 1) \<and> winningAxis ?b Red 2 3 other
        \<longrightarrow> \<not> runCells ?b Red 2 3 (fst other) (snd other)
              \<subseteq> set [(2, 3), (2, 2), (2, 1), (2, 0)]"
    by auto
  have "(1, 0) \<in> set axes" "(1, 0) \<noteq> (0 :: int, 1 :: int)" by (simp_all add: axes_def)
  with others w2 have "\<not> runCells ?b Red 2 3 (fst (1 :: int, 0 :: int)) (snd (1 :: int, 0 :: int))
              \<subseteq> set [(2, 3), (2, 2), (2, 1), (2, 0)]" by blast
  with h1 h2 h3 pd gb2 first w2 discs run show ?thesis by simp
qed

subsection \<open>Rejected moves\<close>

text \<open>
  C2. A move on a terminal state returns the state unchanged, whatever the board. On a 6
  by 7 board a move into a column outside [0, COLUMNS), or into a column with no empty
  cell, returns the state unchanged. In each case the call returns a state: it neither
  throws nor fails to return.
\<close>

theorem placeDisc_noop:
  "(result state \<noteq> Continue \<longrightarrow> placeDisc state col = Some (Inr state))
   \<and> (wf_board (gameBoard state)
        \<and> (col < 0 \<or> int COLUMNS \<le> col
             \<or> (\<forall>r \<in> {0..<int ROWS}. cellAt (gameBoard state) r col \<noteq> None))
      \<longrightarrow> placeDisc state col = Some (Inr state))"
proof (intro conjI impI)
  assume "result state \<noteq> Continue"
  then show "placeDisc state col = Some (Inr state)" by (rule placeDisc_terminal)
next
  assume a: "wf_board (gameBoard state)
        \<and> (col < 0 \<or> int COLUMNS \<le> col
             \<or> (\<forall>r \<in> {0..<int ROWS}. cellAt (gameBoard state) r col \<noteq> None))"
  then have "\<not> columnOpen (gameBoard state) col"
    unfolding columnOpen_def by auto
  with a show "placeDisc state col = Some (Inr state)"
    by (simp add: placeDisc_rejected)
qed

theorem placeDisc_noop_witness:
  "result (horizontalSetup\<lparr>result := Draw\<rparr>) \<noteq> Continue
   \<and> placeDisc (horizontalSetup\<lparr>result := Draw\<rparr>) 3 = Some (Inr (horizontalSetup\<lparr>result := Draw\<rparr>))
   \<and> wf_board (gameBoard horizontalSetup)
   \<and> int COLUMNS \<le> 7
   \<and> placeDisc horizontalSetup 7 = Some (Inr horizontalSetup)
   \<and> placeDisc horizontalSetup (- 1) = Some (Inr horizontalSetup)
   \<and> wf_board (gameBoard drawSetup)
   \<and> list_all (\<lambda>r. cellAt (gameBoard drawSetup) r 0 \<noteq> None) [0..int ROWS - 1]
   \<and> placeDisc drawSetup 0 = Some (Inr drawSetup)"
proof -
  have t: "result (horizontalSetup\<lparr>result := Draw\<rparr>) \<noteq> Continue" by simp
  have wf: "wf_board (gameBoard horizontalSetup)" by code_simp
  have c: "int COLUMNS \<le> 7" by (simp add: COLUMNS_def)
  have wf': "wf_board (gameBoard drawSetup)" by code_simp
  have l: "list_all (\<lambda>r. cellAt (gameBoard drawSetup) r 0 \<noteq> None) [0..int ROWS - 1]"
    by code_simp
  then have full: "\<forall>r \<in> {0..<int ROWS}. cellAt (gameBoard drawSetup) r 0 \<noteq> None"
    by (simp add: list_all_iff)
  from placeDisc_noop [of "horizontalSetup\<lparr>result := Draw\<rparr>" 3] t
  have 1: "placeDisc (horizontalSetup\<lparr>result := Draw\<rparr>) 3
             = Some (Inr (horizontalSetup\<lparr>result := Draw\<rparr>))" by blast
  from placeDisc_noop [of horizontalSetup 7] wf c
  have 2: "placeDisc horizontalSetup 7 = Some (Inr horizontalSetup)" by blast
  from placeDisc_noop [of horizontalSetup "- 1"] wf
  have 3: "placeDisc horizontalSetup (- 1) = Some (Inr horizontalSetup)" by simp
  from placeDisc_noop [of drawSetup 0] wf' full
  have 4: "placeDisc drawSetup 0 = Some (Inr drawSetup)" by blast
  from t wf c wf' l 1 2 3 4 show ?thesis by blast
qed

subsection \<open>Where the disc lands\<close>

text \<open>
  C3. For every state with a 6 by 7 board and result \<open>Continue\<close>, and every accepted
  move into a column whose \<open>k\<close> discs are stacked from the bottom, as the columns of every
  reachable state are (\<open>reachable_columnStacked\<close>): \<open>k\<close> is less than ROWS, the placed
  disc occupies row ROWS - 1 - k of the column, and that row is the lowest empty row, the
  highest row index whose cell in the column is empty.
\<close>

theorem placeDisc_lands:
  assumes "wf_board (gameBoard state)"
    and "result state = Continue"
    and "columnOpen (gameBoard state) col"
    and "columnStacked (gameBoard state) col"
  shows "\<exists>row state'.
           placeDisc state col = Some (Inr state')
         \<and> gameBoard state' = setCell (gameBoard state) row col (Some (currentPlayer state))
         \<and> cellAt (gameBoard state') row col = Some (currentPlayer state)
         \<and> discCount (gameBoard state) col < ROWS
         \<and> row = int ROWS - 1 - int (discCount (gameBoard state) col)
         \<and> isLowestEmpty (gameBoard state) col row"
proof -
  from columnOpen_lowest [OF assms(3)]
  obtain row where low: "isLowestEmpty (gameBoard state) col row" ..
  then have ob: "onBoard row col" by (simp add: isLowestEmpty_def)
  from placeDisc_outcome [OF assms(1,2) low]
  obtain state' where pd: "placeDisc state col = Some (Inr state')"
    and gb: "gameBoard state' = setCell (gameBoard state) row col (Some (currentPlayer state))"
    by blast
  have placed: "cellAt (gameBoard state') row col = Some (currentPlayer state)"
    unfolding gb using assms(1) ob by (rule cellAt_setCell_same)
  have row: "row = int ROWS - 1 - int (discCount (gameBoard state) col)"
    using low assms(4) by (rule stacked_discCount)
  from ob have "0 \<le> row" by (simp add: onBoard_def)
  with row have k: "discCount (gameBoard state) col < ROWS" by linarith
  from low pd gb placed row k show ?thesis by blast
qed

theorem placeDisc_lands_witness:
  "reachable horizontalSetup
   \<and> wf_board (gameBoard horizontalSetup)
   \<and> result horizontalSetup = Continue
   \<and> columnOpen (gameBoard horizontalSetup) 0
   \<and> columnStacked (gameBoard horizontalSetup) 0
   \<and> discCount (gameBoard horizontalSetup) 0 = 2
   \<and> isLowestEmpty (gameBoard horizontalSetup) 0 3
   \<and> (\<exists>state'.
         placeDisc horizontalSetup 0 = Some (Inr state')
       \<and> gameBoard state' = setCell (gameBoard horizontalSetup) 3 0 (Some Red)
       \<and> cellAt (gameBoard state') 3 0 = Some Red)"
proof -
  have r: "reachable horizontalSetup"
    using reachable_init horizontalSetup_played by (rule playAll_reachable)
  have h1: "wf_board (gameBoard horizontalSetup)" by code_simp
  have h2: "result horizontalSetup = Continue" by code_simp
  have h3: "columnOpen (gameBoard horizontalSetup) 0" by code_simp
  have h4: "columnStacked (gameBoard horizontalSetup) 0"
    using r by (rule reachable_columnStacked) (simp_all add: COLUMNS_def)
  have k: "discCount (gameBoard horizontalSetup) 0 = 2" by code_simp
  have p: "currentPlayer horizontalSetup = Red" by code_simp
  from placeDisc_lands [OF h1 h2 h3 h4] obtain row state' where
    pd: "placeDisc horizontalSetup 0 = Some (Inr state')"
    and gb: "gameBoard state' = setCell (gameBoard horizontalSetup) row 0 (Some Red)"
    and at: "cellAt (gameBoard state') row 0 = Some Red"
    and row: "row = int ROWS - 1 - int (discCount (gameBoard horizontalSetup) 0)"
    and low: "isLowestEmpty (gameBoard horizontalSetup) 0 row"
    unfolding p by blast
  from row k have "row = 3" by (simp add: ROWS_def)
  with r h1 h2 h3 h4 k low pd gb at show ?thesis by blast
qed

subsection \<open>Continuing moves and draws\<close>

text \<open>
  C4. For every state with a 6 by 7 board and result \<open>Continue\<close>, and every accepted
  move: \<open>placeDisc\<close> returns a state with a 6 by 7 board in which exactly one cell changed,
  the lowest empty cell of the column, from empty to the disc of the input's
  \<open>currentPlayer\<close>, every other cell being unchanged. The move yields neither a win nor a
  draw exactly when no axis through the placed disc has a winning run and the top row is
  not full after the placement; then the result is \<open>Continue\<close>, \<open>currentPlayer\<close> is the
  other player and differs from the input's, and \<open>winningDiscs\<close> is null.
\<close>

theorem placeDisc_continue:
  assumes "wf_board (gameBoard state)"
    and "result state = Continue"
    and "columnOpen (gameBoard state) col"
  shows "\<exists>row state'.
           isLowestEmpty (gameBoard state) col row
         \<and> placeDisc state col = Some (Inr state')
         \<and> gameBoard state' = setCell (gameBoard state) row col (Some (currentPlayer state))
         \<and> wf_board (gameBoard state')
         \<and> cellAt (gameBoard state) row col = None
         \<and> cellAt (gameBoard state') row col = Some (currentPlayer state)
         \<and> (\<forall>r \<in> {0..<int ROWS}. \<forall>c \<in> {0..<int COLUMNS}.
               (r, c) \<noteq> (row, col) \<longrightarrow>
                 cellAt (gameBoard state') r c = cellAt (gameBoard state) r c)
         \<and> ((result state' \<noteq> Win \<and> result state' \<noteq> Draw)
              \<longleftrightarrow> (\<not> (\<exists>axis \<in> set axes.
                         winningAxis (gameBoard state') (currentPlayer state) row col axis)
                   \<and> \<not> topRowFull (gameBoard state')))
         \<and> (\<not> (\<exists>axis \<in> set axes.
                   winningAxis (gameBoard state') (currentPlayer state) row col axis)
              \<and> \<not> topRowFull (gameBoard state')
              \<longrightarrow> result state' = Continue
                \<and> currentPlayer state' \<noteq> currentPlayer state
                \<and> currentPlayer state' = otherPlayer (currentPlayer state)
                \<and> winningDiscs state' = None)"
proof -
  from columnOpen_lowest [OF assms(3)]
  obtain row where low: "isLowestEmpty (gameBoard state) col row" ..
  then have ob: "onBoard row col" and e: "cellAt (gameBoard state) row col = None"
    by (simp_all add: isLowestEmpty_def)
  from placeDisc_outcome [OF assms(1,2) low]
  obtain state' where pd: "placeDisc state col = Some (Inr state')"
    and gb: "gameBoard state' = setCell (gameBoard state) row col (Some (currentPlayer state))"
    and out: "case firstWinningAxis (gameBoard state') (currentPlayer state) row col of
                Some axis \<Rightarrow> result state' = Win \<and> currentPlayer state' = currentPlayer state
                  \<and> (\<exists>discs. winningDiscs state' = Some discs \<and> distinct discs
                        \<and> set discs = runCells (gameBoard state') (currentPlayer state) row col
                                         (fst axis) (snd axis))
              | None \<Rightarrow> winningDiscs state' = None
                  \<and> (if topRowFull (gameBoard state')
                      then result state' = Draw \<and> currentPlayer state' = currentPlayer state
                      else result state' = Continue
                         \<and> currentPlayer state' = otherPlayer (currentPlayer state))"
    by blast
  let ?W = "\<exists>axis \<in> set axes. winningAxis (gameBoard state') (currentPlayer state) row col axis"
  have wf': "wf_board (gameBoard state')"
    unfolding gb using assms(1) by (rule setCell_wf)
  have placed: "cellAt (gameBoard state') row col = Some (currentPlayer state)"
    unfolding gb using assms(1) ob by (rule cellAt_setCell_same)
  have others: "\<forall>r \<in> {0..<int ROWS}. \<forall>c \<in> {0..<int COLUMNS}.
      (r, c) \<noteq> (row, col) \<longrightarrow> cellAt (gameBoard state') r c = cellAt (gameBoard state) r c"
  proof (intro ballI impI)
    fix r c assume "r \<in> {0..<int ROWS}" "c \<in> {0..<int COLUMNS}" "(r, c) \<noteq> (row, col)"
    then have "onBoard r c" "r \<noteq> row \<or> c \<noteq> col" by (simp_all add: onBoard_def)
    with ob show "cellAt (gameBoard state') r c = cellAt (gameBoard state) r c"
      unfolding gb by (simp add: cellAt_setCell_other)
  qed
  have flip: "otherPlayer p \<noteq> p" for p
    by (cases p) (simp_all add: otherPlayer_def)
  have verdict: "(result state' \<noteq> Win \<and> result state' \<noteq> Draw)
      \<longleftrightarrow> (\<not> ?W \<and> \<not> topRowFull (gameBoard state'))"
    and cont: "\<not> ?W \<and> \<not> topRowFull (gameBoard state')
      \<longrightarrow> result state' = Continue
        \<and> currentPlayer state' \<noteq> currentPlayer state
        \<and> currentPlayer state' = otherPlayer (currentPlayer state)
        \<and> winningDiscs state' = None"
  proof -
    show "(result state' \<noteq> Win \<and> result state' \<noteq> Draw)
      \<longleftrightarrow> (\<not> ?W \<and> \<not> topRowFull (gameBoard state'))"
    proof (cases "firstWinningAxis (gameBoard state') (currentPlayer state) row col")
      case None
      then have "\<not> ?W"
        using firstWinningAxis_None [of "gameBoard state'" "currentPlayer state" row col]
        by blast
      with out None show ?thesis by (simp split: if_splits)
    next
      case (Some axis)
      from firstWinningAxis_Some [OF Some] have "?W" by blast
      with out Some show ?thesis by simp
    qed
    show "\<not> ?W \<and> \<not> topRowFull (gameBoard state')
      \<longrightarrow> result state' = Continue
        \<and> currentPlayer state' \<noteq> currentPlayer state
        \<and> currentPlayer state' = otherPlayer (currentPlayer state)
        \<and> winningDiscs state' = None"
    proof
      assume a: "\<not> ?W \<and> \<not> topRowFull (gameBoard state')"
      then have "firstWinningAxis (gameBoard state') (currentPlayer state) row col = None"
        using firstWinningAxis_None [of "gameBoard state'" "currentPlayer state" row col]
        by blast
      with out a flip [of "currentPlayer state"]
      show "result state' = Continue
        \<and> currentPlayer state' \<noteq> currentPlayer state
        \<and> currentPlayer state' = otherPlayer (currentPlayer state)
        \<and> winningDiscs state' = None" by simp
    qed
  qed
  from low pd gb wf' e placed others verdict cont show ?thesis by blast
qed

theorem placeDisc_continue_witness:
  "wf_board (gameBoard horizontalSetup)
   \<and> result horizontalSetup = Continue
   \<and> columnOpen (gameBoard horizontalSetup) 4
   \<and> (\<exists>state'.
         placeDisc horizontalSetup 4 = Some (Inr state')
       \<and> gameBoard state' = setCell (gameBoard horizontalSetup) 5 4 (Some Red)
       \<and> \<not> (\<exists>axis \<in> set axes. winningAxis (gameBoard state') Red 5 4 axis)
       \<and> \<not> topRowFull (gameBoard state')
       \<and> result state' = Continue
       \<and> currentPlayer state' = Yellow
       \<and> currentPlayer state' \<noteq> currentPlayer horizontalSetup
       \<and> winningDiscs state' = None
       \<and> cellAt (gameBoard horizontalSetup) 5 4 = None
       \<and> cellAt (gameBoard state') 5 4 = Some Red)"
proof -
  have h1: "wf_board (gameBoard horizontalSetup)" by code_simp
  have h2: "result horizontalSetup = Continue" by code_simp
  have h3: "columnOpen (gameBoard horizontalSetup) 4" by code_simp
  have p: "currentPlayer horizontalSetup = Red" by code_simp
  have o: "otherPlayer Red = Yellow" by (simp add: otherPlayer_def)
  have low: "isLowestEmpty (gameBoard horizontalSetup) 4 5" by code_simp
  let ?b = "setCell (gameBoard horizontalSetup) 5 4 (Some Red)"
  let ?st = "\<lparr>result = Continue, gameBoard = ?b, currentPlayer = Red, winningDiscs = None\<rparr>"
  have wfb: "wf_board ?b" and here: "hasDisc ?b Red 5 4" by code_simp+
  have "checkDirection ?st 5 4 0 1 = Some (Inr None)" by code_simp
  with winningAxis_code [OF wfb here, of 0 1 Continue None]
  have n1: "\<not> winningAxis ?b Red 5 4 (0, 1)" by simp
  have "checkDirection ?st 5 4 1 0 = Some (Inr None)" by code_simp
  with winningAxis_code [OF wfb here, of 1 0 Continue None]
  have n2: "\<not> winningAxis ?b Red 5 4 (1, 0)" by simp
  have "checkDirection ?st 5 4 1 1 = Some (Inr None)" by code_simp
  with winningAxis_code [OF wfb here, of 1 1 Continue None]
  have n3: "\<not> winningAxis ?b Red 5 4 (1, 1)" by simp
  have "checkDirection ?st 5 4 1 (- 1) = Some (Inr None)" by code_simp
  with winningAxis_code [OF wfb here, of 1 "- 1" Continue None]
  have n4: "\<not> winningAxis ?b Red 5 4 (1, - 1)" by simp
  from n1 n2 n3 n4 have none: "\<not> (\<exists>axis \<in> set axes. winningAxis ?b Red 5 4 axis)"
    by (simp add: axes_def)
  have open_top: "\<not> topRowFull ?b" by code_simp
  from placeDisc_continue [OF h1 h2 h3] obtain row state' where
    r: "isLowestEmpty (gameBoard horizontalSetup) 4 row"
    and pd: "placeDisc horizontalSetup 4 = Some (Inr state')"
    and gb: "gameBoard state' = setCell (gameBoard horizontalSetup) row 4 (Some Red)"
    and e: "cellAt (gameBoard horizontalSetup) row 4 = None"
    and at: "cellAt (gameBoard state') row 4 = Some Red"
    and out: "\<not> (\<exists>axis \<in> set axes. winningAxis (gameBoard state') Red row 4 axis)
              \<and> \<not> topRowFull (gameBoard state')
              \<longrightarrow> result state' = Continue
                \<and> currentPlayer state' \<noteq> Red
                \<and> currentPlayer state' = otherPlayer Red
                \<and> winningDiscs state' = None"
    unfolding p by blast
  from isLowestEmpty_unique [OF r low] have row: "row = 5" .
  from gb row have gb5: "gameBoard state' = ?b" by simp
  from out none open_top have c: "result state' = Continue
      \<and> currentPlayer state' \<noteq> Red \<and> currentPlayer state' = Yellow
      \<and> winningDiscs state' = None"
    unfolding gb5 row o by blast
  from pd gb5 none open_top c e at row p have "\<exists>state'.
         placeDisc horizontalSetup 4 = Some (Inr state')
       \<and> gameBoard state' = setCell (gameBoard horizontalSetup) 5 4 (Some Red)
       \<and> \<not> (\<exists>axis \<in> set axes. winningAxis (gameBoard state') Red 5 4 axis)
       \<and> \<not> topRowFull (gameBoard state')
       \<and> result state' = Continue
       \<and> currentPlayer state' = Yellow
       \<and> currentPlayer state' \<noteq> currentPlayer horizontalSetup
       \<and> winningDiscs state' = None
       \<and> cellAt (gameBoard horizontalSetup) 5 4 = None
       \<and> cellAt (gameBoard state') 5 4 = Some Red"
    by auto
  with h1 h2 h3 show ?thesis by blast
qed

text \<open>
  C5. For every state with a 6 by 7 board and result \<open>Continue\<close>, and every accepted
  move: if no axis through the placed disc has a winning run and the top row is full after
  the placement, \<open>placeDisc\<close> returns result \<open>Draw\<close> with \<open>winningDiscs\<close> null,
  \<open>currentPlayer\<close> unchanged and the updated board. The draw check comes after the win
  check: a move that has a winning run yields \<open>Win\<close>, also when it fills the board.
\<close>

theorem placeDisc_draw:
  assumes "wf_board (gameBoard state)"
    and "result state = Continue"
    and "columnOpen (gameBoard state) col"
  shows "\<exists>row state'.
           isLowestEmpty (gameBoard state) col row
         \<and> placeDisc state col = Some (Inr state')
         \<and> gameBoard state' = setCell (gameBoard state) row col (Some (currentPlayer state))
         \<and> ((\<exists>axis \<in> set axes. winningAxis (gameBoard state') (currentPlayer state) row col axis)
              \<longrightarrow> result state' = Win)
         \<and> (\<not> (\<exists>axis \<in> set axes. winningAxis (gameBoard state') (currentPlayer state) row col axis)
              \<and> topRowFull (gameBoard state')
              \<longrightarrow> result state' = Draw
                \<and> winningDiscs state' = None
                \<and> currentPlayer state' = currentPlayer state)"
proof -
  from columnOpen_lowest [OF assms(3)]
  obtain row where low: "isLowestEmpty (gameBoard state) col row" ..
  from placeDisc_outcome [OF assms(1,2) low]
  obtain state' where pd: "placeDisc state col = Some (Inr state')"
    and gb: "gameBoard state' = setCell (gameBoard state) row col (Some (currentPlayer state))"
    and out: "case firstWinningAxis (gameBoard state') (currentPlayer state) row col of
                Some axis \<Rightarrow> result state' = Win \<and> currentPlayer state' = currentPlayer state
                  \<and> (\<exists>discs. winningDiscs state' = Some discs \<and> distinct discs
                        \<and> set discs = runCells (gameBoard state') (currentPlayer state) row col
                                         (fst axis) (snd axis))
              | None \<Rightarrow> winningDiscs state' = None
                  \<and> (if topRowFull (gameBoard state')
                      then result state' = Draw \<and> currentPlayer state' = currentPlayer state
                      else result state' = Continue
                         \<and> currentPlayer state' = otherPlayer (currentPlayer state))"
    by blast
  let ?W = "winningAxis (gameBoard state') (currentPlayer state) row col"
  have win: "(\<exists>axis \<in> set axes. ?W axis) \<longrightarrow> result state' = Win"
  proof
    assume "\<exists>axis \<in> set axes. ?W axis"
    with firstWinningAxis_None [of "gameBoard state'" "currentPlayer state" row col]
    obtain axis where "firstWinningAxis (gameBoard state') (currentPlayer state) row col = Some axis"
      by (cases "firstWinningAxis (gameBoard state') (currentPlayer state) row col") auto
    with out show "result state' = Win" by simp
  qed
  have draw: "\<not> (\<exists>axis \<in> set axes. ?W axis) \<and> topRowFull (gameBoard state')
      \<longrightarrow> result state' = Draw \<and> winningDiscs state' = None
        \<and> currentPlayer state' = currentPlayer state"
  proof
    assume a: "\<not> (\<exists>axis \<in> set axes. ?W axis) \<and> topRowFull (gameBoard state')"
    with firstWinningAxis_None [of "gameBoard state'" "currentPlayer state" row col]
    have "firstWinningAxis (gameBoard state') (currentPlayer state) row col = None" by blast
    with out a show "result state' = Draw \<and> winningDiscs state' = None
        \<and> currentPlayer state' = currentPlayer state" by simp
  qed
  from low pd gb win draw show ?thesis by blast
qed

theorem placeDisc_draw_witness:
  "wf_board (gameBoard drawSetup)
   \<and> result drawSetup = Continue
   \<and> columnOpen (gameBoard drawSetup) 6
   \<and> (\<exists>state'.
         placeDisc drawSetup 6 = Some (Inr state')
       \<and> gameBoard state' = setCell (gameBoard drawSetup) 0 6 (Some Yellow)
       \<and> \<not> (\<exists>axis \<in> set axes. winningAxis (gameBoard state') Yellow 0 6 axis)
       \<and> topRowFull (gameBoard state')
       \<and> result state' = Draw
       \<and> winningDiscs state' = None
       \<and> currentPlayer state' = Yellow)
   \<and> wf_board (gameBoard fillingWinSetup)
   \<and> result fillingWinSetup = Continue
   \<and> columnOpen (gameBoard fillingWinSetup) 3
   \<and> (\<exists>state'.
         placeDisc fillingWinSetup 3 = Some (Inr state')
       \<and> gameBoard state' = setCell (gameBoard fillingWinSetup) 0 3 (Some Red)
       \<and> winningAxis (gameBoard state') Red 0 3 (0, 1)
       \<and> topRowFull (gameBoard state')
       \<and> result state' = Win)"
proof -
  have h1: "wf_board (gameBoard drawSetup)" by code_simp
  have h2: "result drawSetup = Continue" by code_simp
  have h3: "columnOpen (gameBoard drawSetup) 6" by code_simp
  have p: "currentPlayer drawSetup = Yellow" by code_simp
  have low: "isLowestEmpty (gameBoard drawSetup) 6 0" by code_simp
  let ?b = "setCell (gameBoard drawSetup) 0 6 (Some Yellow)"
  let ?st = "\<lparr>result = Continue, gameBoard = ?b, currentPlayer = Yellow, winningDiscs = None\<rparr>"
  have wfb: "wf_board ?b" and here: "hasDisc ?b Yellow 0 6" by code_simp+
  have "checkDirection ?st 0 6 0 1 = Some (Inr None)" by code_simp
  with winningAxis_code [OF wfb here, of 0 1 Continue None]
  have n1: "\<not> winningAxis ?b Yellow 0 6 (0, 1)" by simp
  have "checkDirection ?st 0 6 1 0 = Some (Inr None)" by code_simp
  with winningAxis_code [OF wfb here, of 1 0 Continue None]
  have n2: "\<not> winningAxis ?b Yellow 0 6 (1, 0)" by simp
  have "checkDirection ?st 0 6 1 1 = Some (Inr None)" by code_simp
  with winningAxis_code [OF wfb here, of 1 1 Continue None]
  have n3: "\<not> winningAxis ?b Yellow 0 6 (1, 1)" by simp
  have "checkDirection ?st 0 6 1 (- 1) = Some (Inr None)" by code_simp
  with winningAxis_code [OF wfb here, of 1 "- 1" Continue None]
  have n4: "\<not> winningAxis ?b Yellow 0 6 (1, - 1)" by simp
  from n1 n2 n3 n4 have none: "\<not> (\<exists>axis \<in> set axes. winningAxis ?b Yellow 0 6 axis)"
    by (simp add: axes_def)
  have full: "topRowFull ?b" by code_simp
  from placeDisc_draw [OF h1 h2 h3] obtain row state' where
    r: "isLowestEmpty (gameBoard drawSetup) 6 row"
    and pd: "placeDisc drawSetup 6 = Some (Inr state')"
    and gb: "gameBoard state' = setCell (gameBoard drawSetup) row 6 (Some Yellow)"
    and out: "\<not> (\<exists>axis \<in> set axes. winningAxis (gameBoard state') Yellow row 6 axis)
              \<and> topRowFull (gameBoard state')
              \<longrightarrow> result state' = Draw \<and> winningDiscs state' = None
                \<and> currentPlayer state' = Yellow"
    unfolding p by blast
  from isLowestEmpty_unique [OF r low] have row: "row = 0" .
  from gb row have gb0: "gameBoard state' = ?b" by simp
  from out none full have d: "result state' = Draw \<and> winningDiscs state' = None
      \<and> currentPlayer state' = Yellow"
    unfolding gb0 row by blast
  from pd gb0 none full d have A: "\<exists>state'.
         placeDisc drawSetup 6 = Some (Inr state')
       \<and> gameBoard state' = setCell (gameBoard drawSetup) 0 6 (Some Yellow)
       \<and> \<not> (\<exists>axis \<in> set axes. winningAxis (gameBoard state') Yellow 0 6 axis)
       \<and> topRowFull (gameBoard state')
       \<and> result state' = Draw
       \<and> winningDiscs state' = None
       \<and> currentPlayer state' = Yellow"
    by auto
  have g1: "wf_board (gameBoard fillingWinSetup)" by code_simp
  have g2: "result fillingWinSetup = Continue" by code_simp
  have g3: "columnOpen (gameBoard fillingWinSetup) 3" by code_simp
  have q: "currentPlayer fillingWinSetup = Red" by code_simp
  have low': "isLowestEmpty (gameBoard fillingWinSetup) 3 0" by code_simp
  let ?c = "setCell (gameBoard fillingWinSetup) 0 3 (Some Red)"
  let ?su = "\<lparr>result = Continue, gameBoard = ?c, currentPlayer = Red, winningDiscs = None\<rparr>"
  have wfc: "wf_board ?c" and here': "hasDisc ?c Red 0 3" by code_simp+
  have "checkDirection ?su 0 3 0 1 \<noteq> Some (Inr None)" by code_simp
  with winningAxis_code [OF wfc here', of 0 1 Continue None]
  have w: "winningAxis ?c Red 0 3 (0, 1)" by simp
  have full': "topRowFull ?c" by code_simp
  from placeDisc_draw [OF g1 g2 g3] obtain row' state'' where
    r': "isLowestEmpty (gameBoard fillingWinSetup) 3 row'"
    and pd': "placeDisc fillingWinSetup 3 = Some (Inr state'')"
    and gb': "gameBoard state'' = setCell (gameBoard fillingWinSetup) row' 3 (Some Red)"
    and out': "(\<exists>axis \<in> set axes. winningAxis (gameBoard state'') Red row' 3 axis)
              \<longrightarrow> result state'' = Win"
    unfolding q by blast
  from isLowestEmpty_unique [OF r' low'] have row': "row' = 0" .
  from gb' row' have gc: "gameBoard state'' = ?c" by simp
  from w have "\<exists>axis \<in> set axes. winningAxis ?c Red 0 3 axis"
    by (auto simp: axes_def)
  with out' have "result state'' = Win" unfolding gc row' by blast
  with pd' gc w full' have B: "\<exists>state'.
         placeDisc fillingWinSetup 3 = Some (Inr state')
       \<and> gameBoard state' = setCell (gameBoard fillingWinSetup) 0 3 (Some Red)
       \<and> winningAxis (gameBoard state') Red 0 3 (0, 1)
       \<and> topRowFull (gameBoard state')
       \<and> result state' = Win"
    by auto
  from h1 h2 h3 A g1 g2 g3 B show ?thesis by blast
qed

subsection \<open>Invariants of the reachable states\<close>

text \<open>
  C7. In every state reachable from the initial state by calls of \<open>placeDisc\<close>,
  \<open>winningDiscs\<close> is non-null if and only if the result is \<open>Win\<close>. (Every such call
  returns: \<open>reachable_placeDisc_returns\<close>.)
\<close>

theorem reachable_winningDiscs:
  assumes "reachable state"
  shows "winningDiscs state \<noteq> None \<longleftrightarrow> result state = Win"
  using assms
proof (induction rule: reachable.induct)
  case reachable_init
  show ?case by (simp add: getInitialState_def)
next
  case (reachable_step state col state')
  from placeDisc_winningDiscs [OF reachable_step.IH reachable_step.hyps(2)]
  show ?case .
qed

theorem reachable_winningDiscs_witness:
  "reachable horizontalWin
   \<and> result horizontalWin = Win
   \<and> winningDiscs horizontalWin \<noteq> None
   \<and> reachable horizontalSetup
   \<and> result horizontalSetup \<noteq> Win
   \<and> winningDiscs horizontalSetup = None"
proof -
  have r1: "reachable horizontalWin"
    using reachable_init horizontalWin_played by (rule playAll_reachable)
  have r2: "reachable horizontalSetup"
    using reachable_init horizontalSetup_played by (rule playAll_reachable)
  have w: "result horizontalWin = Win" by (simp add: horizontalWin_def)
  have c: "result horizontalSetup \<noteq> Win" by (simp add: horizontalSetup_def)
  from reachable_winningDiscs [OF r1] w have 1: "winningDiscs horizontalWin \<noteq> None" by simp
  from reachable_winningDiscs [OF r2] c have 2: "winningDiscs horizontalSetup = None" by simp
  from r1 r2 w c 1 2 show ?thesis by blast
qed

text \<open>
  C10. In every state reachable from the initial state by calls of \<open>placeDisc\<close> the
  board is gravity-consistent: if a cell (r, c) is occupied, then so is every cell (r', c)
  of the same column with r' > r.
\<close>

theorem reachable_gravity:
  assumes "reachable state"
  shows "gravityConsistent (gameBoard state)"
  using assms
proof (induction rule: reachable.induct)
  case reachable_init
  have "cellAt (gameBoard getInitialState) r c = None"
    if "r \<in> {0..<int ROWS}" "c \<in> {0..<int COLUMNS}" for r c
  proof -
    from that have "nat r < 6" "nat c < 7" by (auto simp: ROWS_def COLUMNS_def)
    then show ?thesis
      by (simp add: getInitialState_def cellAt_def ROWS_def COLUMNS_def)
  qed
  then show ?case unfolding gravityConsistent_def by simp
next
  case (reachable_step state col state')
  from reachable_step.hyps(1) have wf: "wf_board (gameBoard state)" by (rule reachable_wf)
  from placeDisc_step [OF wf reachable_step.hyps(2)]
  show ?case
  proof
    assume "state' = state"
    with reachable_step.IH show ?thesis by simp
  next
    assume "\<exists>row. isLowestEmpty (gameBoard state) col row
             \<and> gameBoard state' = setCell (gameBoard state) row col (Some (currentPlayer state))"
    then obtain row where "isLowestEmpty (gameBoard state) col row"
      "gameBoard state' = setCell (gameBoard state) row col (Some (currentPlayer state))"
      by blast
    with gravity_setCell [OF wf reachable_step.IH] show ?thesis by simp
  qed
qed

theorem reachable_gravity_witness:
  "reachable drawSetup \<and> gravityConsistent (gameBoard drawSetup)
   \<and> reachable horizontalSetup \<and> gravityConsistent (gameBoard horizontalSetup)"
proof -
  have r1: "reachable drawSetup"
    using reachable_init drawSetup_played by (rule playAll_reachable)
  have r2: "reachable horizontalSetup"
    using reachable_init horizontalSetup_played by (rule playAll_reachable)
  from r1 r2 reachable_gravity [OF r1] reachable_gravity [OF r2] show ?thesis by blast
qed

subsection \<open>isWinningCell\<close>

text \<open>
  C8. For every state and every pair (row, col), \<open>isWinningCell state row col\<close> is true
  if and only if \<open>winningDiscs\<close> of the state is non-null and contains the pair
  (row, col); in particular it is false whenever \<open>winningDiscs\<close> is null.
\<close>

theorem isWinningCell_iff:
  "(isWinningCell state row col
      \<longleftrightarrow> (\<exists>discs. winningDiscs state = Some discs \<and> (row, col) \<in> set discs))
   \<and> (winningDiscs state = None \<longrightarrow> \<not> isWinningCell state row col)"
  by (auto simp: isWinningCell_def list_ex_iff)

theorem isWinningCell_iff_witness:
  "winningDiscs getInitialState = None \<and> \<not> isWinningCell getInitialState 5 0
   \<and> isWinningCell (getInitialState\<lparr>winningDiscs := Some [(5, 3), (5, 2)]\<rparr>) 5 2"
  using isWinningCell_iff [of getInitialState 5 0]
    isWinningCell_iff [of "getInitialState\<lparr>winningDiscs := Some [(5, 3), (5, 2)]\<rparr>" 5 2]
  by (simp add: getInitialState_def)

subsection \<open>The horizontal win of the test suite\<close>

text \<open>
  C9. From the initial state, the column sequence 0, 0, 1, 1, 2, 2, 3 (red plays 0, 1,
  2, 3 and yellow plays 0, 1, 2) ends in a state with result \<open>Win\<close>, \<open>currentPlayer\<close> red,
  and \<open>winningDiscs\<close> whose coordinate set is {(5,0), (5,1), (5,2), (5,3)}.
\<close>

theorem horizontal_win:
  "playAll getInitialState [0, 0, 1, 1, 2, 2, 3]
     = Some (Inr \<lparr>result = Win,
                  gameBoard =
                   [[None, None, None, None, None, None, None],
                    [None, None, None, None, None, None, None],
                    [None, None, None, None, None, None, None],
                    [None, None, None, None, None, None, None],
                    [Some Yellow, Some Yellow, Some Yellow, None, None, None, None],
                    [Some Red, Some Red, Some Red, Some Red, None, None, None]],
                  currentPlayer = Red,
                  winningDiscs = Some [(5, 3), (5, 2), (5, 1), (5, 0)]\<rparr>)
   \<and> set [(5, 3), (5, 2), (5, 1), (5 :: int, 0 :: int)] = {(5, 0), (5, 1), (5, 2), (5, 3)}"
  by code_simp

end
